theory Spec2Isabelle
  imports Complex_Main
begin

section \<open>Data model\<close>

text \<open>
  The sub-step canvas of the task detail dialog. Two variants of the component are
  embedded: \<^verbatim>\<open>src/components/TaskDetailModal.tsx\<close> (the flow canvas with connectors)
  and \<^verbatim>\<open>src/unnamed/part_000\<close> (the variant without connectors). The type
  declarations of \<^verbatim>\<open>../types\<close> are not part of the sources; the records below hold
  the fields the handlers read and write, optional where the handlers treat them as
  optional (\<^verbatim>\<open>position?.x\<close>, \<^verbatim>\<open>nextSubStepIds || []\<close>, \<^verbatim>\<open>actionItems || []\<close>).

  Numbers are modelled as reals: the arithmetic of the handlers is exact on them, and
  rounding, NaN and the infinities of IEEE doubles are outside the model.
\<close>

record point =
  px :: real
  py :: real

record canvas_size =
  width :: real
  height :: real

record ActionItem =
  ai_id :: string
  ai_text :: string
  completed :: bool

datatype SubStepStatus = NOT_STARTED | IN_PROGRESS | COMPLETED

record SubStep =
  sid :: string
  stext :: string
  snotes :: "string option"
  position :: "point option"
  nextSubStepIds :: "string list option"
  actionItems :: "ActionItem list option"
  status :: "SubStepStatus option"

record ConnectorInfo =
  conn_id :: string
  conn_from :: point
  conn_to :: point
  sourceId :: string
  targetId :: string

record connecting =
  fromId :: string
  fromPos :: point

text \<open>The part of \<^verbatim>\<open>flowContainerRef.current\<close> the handlers read.\<close>

record container =
  rect_left :: real
  rect_top :: real
  scrollLeft :: real
  scrollTop :: real

record mouse_event =
  clientX :: real
  clientY :: real

text \<open>
  The component state of \<^verbatim>\<open>TaskDetailModal.tsx\<close> that the canvas handlers touch:
  \<^verbatim>\<open>extendedDetails.subSteps\<close>, \<^verbatim>\<open>extendedDetails.subStepCanvasSize\<close>, the
  \<^verbatim>\<open>useState\<close> cells and the refs. \<^verbatim>\<open>subStepCardRefs\<close> is a Map keyed by
  sub-step id; only its keys matter here.
\<close>

record modal_state =
  subSteps :: "SubStep list"
  subStepCanvasSize :: "canvas_size option"
  selectedSubStep :: "SubStep option"
  flowContainer :: "container option"
  subStepCardRefs :: "string list"
  connectors :: "ConnectorInfo list"
  connectingState :: "connecting option"
  draggedSubStepId :: "string option"
  dragOffset :: point

section \<open>JavaScript idioms\<close>

text \<open>\<^verbatim>\<open>v || 0\<close> for a number that may be undefined: undefined and 0 both give 0.\<close>

definition or_zero :: "real option \<Rightarrow> real" where
  "or_zero v = (case v of None \<Rightarrow> 0 | Some r \<Rightarrow> if r = 0 then 0 else r)"

text \<open>\<^verbatim>\<open>xs || []\<close> for an array that may be undefined (every array is truthy).\<close>

definition or_empty :: "'a list option \<Rightarrow> 'a list" where
  "or_empty xs = (case xs of None \<Rightarrow> [] | Some l \<Rightarrow> l)"

text \<open>
  \<^verbatim>\<open>Array.from(new Set(xs))\<close>: a Set keeps the first occurrence of each value, in
  insertion order.
\<close>

definition array_from_set :: "'a list \<Rightarrow> 'a list" where
  "array_from_set xs = fold (\<lambda>v acc. if v \<in> set acc then acc else acc @ [v]) xs []"

text \<open>\<^verbatim>\<open>xs.findIndex(p)\<close>, with \<^verbatim>\<open>-1\<close> as \<open>None\<close>.\<close>

fun findIndex :: "('a \<Rightarrow> bool) \<Rightarrow> 'a list \<Rightarrow> nat option" where
  "findIndex p [] = None"
| "findIndex p (v # vs) =
     (if p v then Some 0 else map_option Suc (findIndex p vs))"

section \<open>Handlers of TaskDetailModal.tsx\<close>

definition CARD_WIDTH :: real where
  "CARD_WIDTH = 200"

definition CARD_HEIGHT :: real where
  "CARD_HEIGHT = 120"

subsection \<open>calculateConnectors\<close>

text \<open>The body of the inner \<^verbatim>\<open>forEach\<close> over \<^verbatim>\<open>nextSubStepIds\<close>.\<close>

definition pushConnector ::
  "SubStep list \<Rightarrow> SubStep \<Rightarrow> point \<Rightarrow> string \<Rightarrow> ConnectorInfo list \<Rightarrow> ConnectorInfo list" where
  "pushConnector allSubSteps sourceSubStep sourcePos tid newConnectors =
     (case find (\<lambda>ss. sid ss = tid) allSubSteps of
        None \<Rightarrow> newConnectors
      | Some targetSubStep \<Rightarrow>
          (let targetX = or_zero (map_option px (position targetSubStep));
               targetY = or_zero (map_option py (position targetSubStep));
               targetPos = \<lparr>px = targetX, py = targetY + CARD_HEIGHT / 2\<rparr>
           in newConnectors @
              [\<lparr>conn_id = ''conn-'' @ sid sourceSubStep @ ''-'' @ tid,
                conn_from = sourcePos,
                conn_to = targetPos,
                sourceId = sid sourceSubStep,
                targetId = tid\<rparr>]))"

text \<open>The body of the outer \<^verbatim>\<open>forEach\<close> over the sub-steps.\<close>

definition connectorsOf ::
  "SubStep list \<Rightarrow> SubStep \<Rightarrow> ConnectorInfo list \<Rightarrow> ConnectorInfo list" where
  "connectorsOf allSubSteps sourceSubStep newConnectors =
     (case nextSubStepIds sourceSubStep of
        None \<Rightarrow> newConnectors
      | Some ids \<Rightarrow>
          if length ids > 0 then
            (let sourceX = or_zero (map_option px (position sourceSubStep));
                 sourceY = or_zero (map_option py (position sourceSubStep));
                 sourcePos = \<lparr>px = sourceX + CARD_WIDTH, py = sourceY + CARD_HEIGHT / 2\<rparr>
             in fold (pushConnector allSubSteps sourceSubStep sourcePos) ids newConnectors)
          else newConnectors)"

definition calculateConnectors :: "modal_state \<Rightarrow> modal_state" where
  "calculateConnectors st =
     (if flowContainer st = None \<or> length (subStepCardRefs st) = 0
      then st\<lparr>connectors := []\<rparr>
      else st\<lparr>connectors := fold (connectorsOf (subSteps st)) (subSteps st) []\<rparr>)"

subsection \<open>handleAutoLayoutSubSteps\<close>

text \<open>
  The guard \<^verbatim>\<open>if (!extendedDetails.subSteps) return\<close> fires only on an undefined
  array, which the state type excludes. After the state update the handler calls
  \<^verbatim>\<open>calculateConnectors()\<close> synchronously; that callback closes over the sub-steps of
  the current render, so the connectors it sets are those of the sub-steps before the
  layout. The call of \<^verbatim>\<open>onUpdateTask\<close> is the caller's effect.
\<close>

definition HORIZONTAL_SPACING :: real where
  "HORIZONTAL_SPACING = 250"

definition VERTICAL_SPACING :: real where
  "VERTICAL_SPACING = 150"

definition PADDING :: real where
  "PADDING = 20"

definition handleAutoLayoutSubSteps :: "modal_state \<Rightarrow> modal_state" where
  "handleAutoLayoutSubSteps st =
     (let updatedSubSteps =
            map (\<lambda>(index, subStep).
                   subStep\<lparr>position :=
                     Some \<lparr>px = PADDING + real (index mod 3) * HORIZONTAL_SPACING,
                           py = PADDING + real_of_int \<lfloor>real index / 3\<rfloor> * VERTICAL_SPACING\<rparr>\<rparr>)
                (List.enumerate 0 (subSteps st))
      in st\<lparr>subSteps := updatedSubSteps,
            connectors := connectors (calculateConnectors st)\<rparr>)"

subsection \<open>handleSubStepDrop\<close>

text \<open>
  The guard \<^verbatim>\<open>!draggedSubStepIdRef.current\<close> holds for \<^verbatim>\<open>null\<close> and for the empty
  string. The deferred \<^verbatim>\<open>setTimeout(calculateConnectors, 0)\<close> is a later event and not
  part of this transition.
\<close>

definition handleSubStepDrop :: "bool \<Rightarrow> modal_state \<Rightarrow> mouse_event \<Rightarrow> modal_state" where
  "handleSubStepDrop canEdit st event =
     (case (draggedSubStepId st, flowContainer st) of
        (Some dragged, Some containerRect) \<Rightarrow>
          if dragged = [] \<or> \<not> canEdit then st
          else
            (let newX = clientX event - rect_left containerRect - px (dragOffset st);
                 newY = clientY event - rect_top containerRect - py (dragOffset st);
                 canvasSize = (case subStepCanvasSize st of
                                 None \<Rightarrow> \<lparr>width = 1200, height = 800\<rparr>
                               | Some cs \<Rightarrow> cs);
                 newX' = max 0 (min newX (width canvasSize - CARD_WIDTH));
                 newY' = max 0 (min newY (height canvasSize - CARD_HEIGHT))
             in st\<lparr>subSteps :=
                      map (\<lambda>ss. if sid ss = dragged
                                 then ss\<lparr>position := Some \<lparr>px = newX', py = newY'\<rparr>\<rparr>
                                 else ss)
                          (subSteps st),
                    draggedSubStepId := None\<rparr>)
      | _ \<Rightarrow> st)"

subsection \<open>handleEndConnection and handleDeleteConnection\<close>

definition handleEndConnection :: "bool \<Rightarrow> modal_state \<Rightarrow> string \<Rightarrow> modal_state" where
  "handleEndConnection canEdit st targetSubStepId =
     (case connectingState st of
        None \<Rightarrow> st\<lparr>connectingState := None\<rparr>
      | Some cs \<Rightarrow>
          if fromId cs = targetSubStepId \<or> \<not> canEdit then st\<lparr>connectingState := None\<rparr>
          else
            st\<lparr>subSteps :=
                 map (\<lambda>ss. if sid ss = fromId cs
                            then ss\<lparr>nextSubStepIds :=
                                     Some (array_from_set
                                             (or_empty (nextSubStepIds ss) @ [targetSubStepId]))\<rparr>
                            else ss)
                     (subSteps st),
               connectingState := None\<rparr>)"

definition handleDeleteConnection ::
  "bool \<Rightarrow> modal_state \<Rightarrow> string \<Rightarrow> string \<Rightarrow> modal_state" where
  "handleDeleteConnection canEdit st sourceSubStepId targetSubStepId =
     (if \<not> canEdit then st
      else
        st\<lparr>subSteps :=
             map (\<lambda>ss. if sid ss = sourceSubStepId
                        then ss\<lparr>nextSubStepIds :=
                                 Some (filter (\<lambda>i. i \<noteq> targetSubStepId)
                                              (or_empty (nextSubStepIds ss)))\<rparr>
                        else ss)
                 (subSteps st)\<rparr>)"

subsection \<open>handleRemoveSubStep\<close>

text \<open>
  \<open>confirmed\<close> is the answer of the \<^verbatim>\<open>confirm(...)\<close> dialog, which is only asked
  when editing is allowed.
\<close>

definition handleRemoveSubStep :: "bool \<Rightarrow> bool \<Rightarrow> modal_state \<Rightarrow> string \<Rightarrow> modal_state" where
  "handleRemoveSubStep canEdit confirmed st subStepId =
     (if \<not> canEdit \<or> \<not> confirmed then st
      else
        (let updatedSubSteps = filter (\<lambda>ss. sid ss \<noteq> subStepId) (subSteps st);
             cleanedSubSteps =
               map (\<lambda>ss. ss\<lparr>nextSubStepIds :=
                              map_option (filter (\<lambda>i. i \<noteq> subStepId)) (nextSubStepIds ss)\<rparr>)
                   updatedSubSteps;
             st' = st\<lparr>subSteps := cleanedSubSteps\<rparr>
         in if map_option sid (selectedSubStep st) = Some subStepId
            then st'\<lparr>selectedSubStep := None\<rparr>
            else st'))"

subsection \<open>handleAddSubStep and handleConfirmProposals\<close>

text \<open>
  \<^verbatim>\<open>generateUniqueId\<close> is a prop of the component, supplied by the caller: it is a
  parameter here, a function from its own state \<open>'g\<close> and the prefix to the fresh id
  and the next state.
\<close>

type_synonym 'g id_gen = "'g \<Rightarrow> string \<Rightarrow> string \<times> 'g"

text \<open>
  The label of a sub-step added by hand: the 63 bytes of the string literal stored in
  \<^verbatim>\<open>TaskDetailModal.tsx\<close>.
\<close>

definition NEW_SUBSTEP_TEXT :: string where
  "NEW_SUBSTEP_TEXT =
     map char_of [0xC3, 0x8A, 0xC3, 0xB1, 0xE2, 0x88, 0x9E, 0xE2, 0x80, 0x9E, 0xC3, 0x85,
                  0xC3, 0xB3, 0xE2, 0x80, 0x9E, 0xC3, 0x85, 0xC3, 0x91, 0xE2, 0x80, 0x9E,
                  0xC3, 0x87, 0xC2, 0xB5, 0xE2, 0x80, 0x9E, 0xC3, 0x89, 0xC3, 0xB1, 0xE2,
                  0x80, 0x9E, 0xC3, 0x87, 0xCF, 0x80, 0xE2, 0x80, 0x9E, 0xC3, 0x89, 0xC3,
                  0x9C, 0xE2, 0x80, 0x9E, 0xC3, 0x89, 0xC3, 0x89, 0xE2, 0x80, 0x9E, 0xC3,
                  0x89, 0xC3, 0xB3 :: nat]"

definition handleAddSubStep ::
  "bool \<Rightarrow> 'g id_gen \<Rightarrow> 'g \<Rightarrow> modal_state \<Rightarrow> 'g \<times> modal_state" where
  "handleAddSubStep canEdit generateUniqueId g st =
     (if \<not> canEdit then (g, st)
      else
        (let (newId, g') = generateUniqueId g ''substep'';
             newSubStep =
               \<lparr>sid = newId, stext = NEW_SUBSTEP_TEXT, snotes = Some [],
                position = Some \<lparr>px = 50 + real (length (subSteps st)) * 220, py = 50\<rparr>,
                nextSubStepIds = None, actionItems = Some [], status = None\<rparr>
         in (g', st\<lparr>subSteps := subSteps st @ [newSubStep]\<rparr>)))"

record proposal =
  p_title :: string
  p_description :: string

record newActionItem =
  targetSubStepId :: string
  a_title :: string

record additions =
  newSubSteps :: "proposal list"
  newActionItems :: "newActionItem list"

text \<open>
  The body of \<^verbatim>\<open>additions.newSubSteps.forEach((proposal, index) => ...)\<close>:
  \<^verbatim>\<open>updatedSubSteps.length\<close> is read when the new sub-step is built, before the push.
\<close>

definition pushProposal ::
  "'g id_gen \<Rightarrow> nat \<times> proposal \<Rightarrow> 'g \<times> SubStep list \<Rightarrow> 'g \<times> SubStep list" where
  "pushProposal generateUniqueId ip acc =
     (case (ip, acc) of
        ((index, prop), (g, updatedSubSteps)) \<Rightarrow>
          (let (newId, g') = generateUniqueId g ''substep'';
               newSubStep =
                 \<lparr>sid = newId, stext = p_title prop, snotes = Some (p_description prop),
                  position =
                    Some \<lparr>px = 50 + (real (length updatedSubSteps) + real index) * 220,
                          py = 50\<rparr>,
                  nextSubStepIds = None, actionItems = Some [], status = None\<rparr>
           in (g', updatedSubSteps @ [newSubStep])))"

text \<open>
  The body of \<^verbatim>\<open>additions.newActionItems.forEach(item => ...)\<close>: an id is generated
  only when the target is found.
\<close>

definition pushActionItem ::
  "'g id_gen \<Rightarrow> newActionItem \<Rightarrow> 'g \<times> SubStep list \<Rightarrow> 'g \<times> SubStep list" where
  "pushActionItem generateUniqueId item acc =
     (case acc of
        (g, updatedSubSteps) \<Rightarrow>
          (case findIndex (\<lambda>ss. sid ss = targetSubStepId item) updatedSubSteps of
             None \<Rightarrow> (g, updatedSubSteps)
           | Some targetIndex \<Rightarrow>
               (let (newId, g') = generateUniqueId g ''action'';
                    newItem = \<lparr>ai_id = newId, ai_text = a_title item, completed = False\<rparr>;
                    target = updatedSubSteps ! targetIndex
                in (g', updatedSubSteps
                          [targetIndex :=
                             target\<lparr>actionItems :=
                                      Some (or_empty (actionItems target) @ [newItem])\<rparr>]))))"

text \<open>The \<^verbatim>\<open>isProposalModalOpen\<close> flag that the handler resets is not part of the state here.\<close>

definition handleConfirmProposals ::
  "'g id_gen \<Rightarrow> 'g \<Rightarrow> modal_state \<Rightarrow> additions \<Rightarrow> 'g \<times> modal_state" where
  "handleConfirmProposals generateUniqueId g st adds =
     (let (g1, appended) =
            fold (pushProposal generateUniqueId) (List.enumerate 0 (newSubSteps adds))
                 (g, subSteps st);
          (g2, updatedSubSteps) =
            fold (pushActionItem generateUniqueId) (newActionItems adds) (g1, appended)
      in (g2, st\<lparr>subSteps := updatedSubSteps\<rparr>))"

section \<open>Handlers of the variant in src/unnamed/part\_000\<close>

text \<open>
  This variant keeps its sub-steps in \<^verbatim>\<open>details.subSteps\<close>; its handlers are
  functions on that list.
\<close>

subsection \<open>handleAutoLayout\<close>

definition MARGIN :: real where
  "MARGIN = 50"

definition handleAutoLayout :: "bool \<Rightarrow> SubStep list \<Rightarrow> SubStep list" where
  "handleAutoLayout canEdit detailsSubSteps =
     (if \<not> canEdit then detailsSubSteps
      else
        map (\<lambda>(index, subStep).
               subStep\<lparr>position :=
                 Some \<lparr>px = MARGIN + real (index mod 3) * HORIZONTAL_SPACING,
                       py = MARGIN + real_of_int \<lfloor>real index / 3\<rfloor> * VERTICAL_SPACING\<rparr>\<rparr>)
            (List.enumerate 0 detailsSubSteps))"

subsection \<open>removeSubStep\<close>

text \<open>This variant has no connectors and no handler that writes \<^verbatim>\<open>nextSubStepIds\<close>.\<close>

definition removeSubStep :: "bool \<Rightarrow> SubStep list \<Rightarrow> string \<Rightarrow> SubStep list" where
  "removeSubStep canEdit detailsSubSteps subStepId =
     (if \<not> canEdit then detailsSubSteps
      else filter (\<lambda>ss. sid ss \<noteq> subStepId) detailsSubSteps)"

subsection \<open>handleConfirmProposals\<close>

text \<open>\<^verbatim>\<open>xs.map(f)\<close> for an \<open>f\<close> that draws ids: the generator state runs left to right.\<close>

fun map_gen :: "('a \<Rightarrow> 'g \<Rightarrow> 'b \<times> 'g) \<Rightarrow> 'a list \<Rightarrow> 'g \<Rightarrow> 'b list \<times> 'g" where
  "map_gen f [] g = ([], g)"
| "map_gen f (v # vs) g =
     (let (w, g1) = f v g; (ws, g2) = map_gen f vs g1 in (w # ws, g2))"

definition proposalSubStep :: "'g id_gen \<Rightarrow> nat \<Rightarrow> proposal \<Rightarrow> 'g \<Rightarrow> SubStep \<times> 'g" where
  "proposalSubStep generateUniqueId len prop g =
     (let (newId, g') = generateUniqueId g ''substep''
      in (\<lparr>sid = newId, stext = p_title prop, snotes = Some (p_description prop),
           position = Some \<lparr>px = 50 + real len * 250, py = 50\<rparr>,
           nextSubStepIds = None, actionItems = Some [], status = None\<rparr>, g'))"

definition proposalActionItem :: "'g id_gen \<Rightarrow> newActionItem \<Rightarrow> 'g \<Rightarrow> ActionItem \<times> 'g" where
  "proposalActionItem generateUniqueId item g =
     (let (newId, g') = generateUniqueId g ''action''
      in (\<lparr>ai_id = newId, ai_text = a_title item, completed = False\<rparr>, g'))"

definition attachActionItems ::
  "'g id_gen \<Rightarrow> newActionItem list \<Rightarrow> SubStep \<Rightarrow> 'g \<Rightarrow> SubStep \<times> 'g" where
  "attachActionItems generateUniqueId items subStep g =
     (let newActionItemsForThisSubStep =
            filter (\<lambda>item. targetSubStepId item = sid subStep) items
      in if length newActionItemsForThisSubStep > 0 then
           (let (newItems, g') =
                  map_gen (proposalActionItem generateUniqueId) newActionItemsForThisSubStep g
            in (subStep\<lparr>actionItems := Some (or_empty (actionItems subStep) @ newItems)\<rparr>, g'))
         else (subStep, g))"

definition handleConfirmProposals_part0 ::
  "'g id_gen \<Rightarrow> 'g \<Rightarrow> SubStep list \<Rightarrow> additions \<Rightarrow> 'g \<times> SubStep list" where
  "handleConfirmProposals_part0 generateUniqueId g detailsSubSteps adds =
     (let (newSteps, g1) =
            map_gen (proposalSubStep generateUniqueId (length detailsSubSteps))
                    (newSubSteps adds) g;
          (updatedSubSteps, g2) =
            map_gen (attachActionItems generateUniqueId (newActionItems adds))
                    (detailsSubSteps @ newSteps) g1
      in (g2, updatedSubSteps))"

subsection \<open>SubStepCard\<close>

record dom_rect =
  r_left :: real
  r_top :: real
  r_width :: real
  r_height :: real

text \<open>
  The drag handler of the card: the position it passes to \<^verbatim>\<open>onUpdate\<close>, or \<open>None\<close>
  when it returns early (\<open>containerRect\<close> is \<open>None\<close> when \<^verbatim>\<open>querySelector\<close> finds
  no container).
\<close>

definition SubStepCard_handleMouseMove ::
  "bool \<Rightarrow> bool \<Rightarrow> dom_rect option \<Rightarrow> point \<Rightarrow> mouse_event \<Rightarrow> point option" where
  "SubStepCard_handleMouseMove isDragging canEdit containerRect offset e =
     (if \<not> isDragging \<or> \<not> canEdit then None
      else case containerRect of
        None \<Rightarrow> None
      | Some rect \<Rightarrow>
          (let newX = clientX e - r_left rect - px offset;
               newY = clientY e - r_top rect - py offset
           in Some \<lparr>px = max 0 (min newX (r_width rect - 200)),
                    py = max 0 (min newY (r_height rect - 120))\<rparr>))"

text \<open>The \<^verbatim>\<open>left\<close> and \<^verbatim>\<open>top\<close> of the card's inline style.\<close>

definition SubStepCard_style :: "SubStep \<Rightarrow> point" where
  "SubStepCard_style subStep =
     \<lparr>px = or_zero (map_option px (position subStep)),
      py = or_zero (map_option py (position subStep))\<rparr>"

section \<open>Example data\<close>

text \<open>
  A sub-step with the given id, position and outgoing edges, and the state of a mounted
  dialog that shows the given sub-steps on the default 1200 x 800 canvas, its card refs
  keyed by the sub-step ids. They build the concrete instances below.
\<close>

definition exampleSubStep :: "string \<Rightarrow> point option \<Rightarrow> string list option \<Rightarrow> SubStep" where
  "exampleSubStep i p nx =
     \<lparr>sid = i, stext = [], snotes = None, position = p, nextSubStepIds = nx,
      actionItems = None, status = None\<rparr>"

definition exampleState :: "SubStep list \<Rightarrow> modal_state" where
  "exampleState ss =
     \<lparr>subSteps = ss, subStepCanvasSize = Some \<lparr>width = 1200, height = 800\<rparr>,
      selectedSubStep = None,
      flowContainer = Some \<lparr>rect_left = 0, rect_top = 0, scrollLeft = 0, scrollTop = 0\<rparr>,
      subStepCardRefs = remdups (map sid ss), connectors = [], connectingState = None,
      draggedSubStepId = None, dragOffset = \<lparr>px = 0, py = 0\<rparr>\<rparr>"

text \<open>An id generator for the concrete instances: the prefix, a dash and a counter in unary.\<close>

definition exampleIdGen :: "nat id_gen" where
  "exampleIdGen n prefix = (prefix @ ''-'' @ replicate n (CHR ''i''), Suc n)"

section \<open>Referential integrity of a node set\<close>

text \<open>Every id in every node's \<^verbatim>\<open>nextSubStepIds\<close> is the id of a node of the set.\<close>

definition refIntegrity :: "SubStep list \<Rightarrow> bool" where
  "refIntegrity nodes =
     (\<forall>n \<in> set nodes. \<forall>i \<in> set (or_empty (nextSubStepIds n)). i \<in> sid ` set nodes)"

section \<open>Auto-layout\<close>

lemma floor_third: "\<lfloor>real i / 3\<rfloor> = int (i div 3)"
  using floor_divide_of_nat_eq [of i 3, where ?'a = real] by simp

lemma handleAutoLayoutSubSteps_length:
  "length (subSteps (handleAutoLayoutSubSteps st)) = length (subSteps st)"
  by (simp add: handleAutoLayoutSubSteps_def Let_def)

lemma handleAutoLayoutSubSteps_nth:
  "i < length (subSteps st) \<Longrightarrow>
   subSteps (handleAutoLayoutSubSteps st) ! i =
     (subSteps st ! i)\<lparr>position := Some \<lparr>px = 20 + real (i mod 3) * 250,
                                            py = 20 + real (i div 3) * 150\<rparr>\<rparr>"
  by (simp add: handleAutoLayoutSubSteps_def Let_def nth_enumerate_eq floor_third
        PADDING_def HORIZONTAL_SPACING_def VERTICAL_SPACING_def)

lemma handleAutoLayout_length:
  "length (handleAutoLayout c S) = length S"
  by (simp add: handleAutoLayout_def)

lemma handleAutoLayout_nth:
  "i < length S \<Longrightarrow>
   handleAutoLayout True S ! i =
     (S ! i)\<lparr>position := Some \<lparr>px = 50 + real (i mod 3) * 250,
                                py = 50 + real (i div 3) * 150\<rparr>\<rparr>"
  by (simp add: handleAutoLayout_def nth_enumerate_eq floor_third
        MARGIN_def HORIZONTAL_SPACING_def VERTICAL_SPACING_def)

lemma handleAutoLayout_idem:
  "handleAutoLayout c (handleAutoLayout c S) = handleAutoLayout c S"
proof (cases c)
  case True
  then have c: "c = True" by simp
  show ?thesis unfolding c
    by (rule nth_equalityI) (simp_all add: handleAutoLayout_length handleAutoLayout_nth)
next
  case False
  then show ?thesis by (simp add: handleAutoLayout_def)
qed

text \<open>
  C3, as the code has it. Both auto-layout handlers keep the input order and replace
  only the position: the node at index \<open>i\<close> gets
  \<open>x = margin + (i mod 3) * 250\<close> and \<open>y = margin + floor (i / 3) * 150\<close>, with margin 50
  in \<^verbatim>\<open>handleAutoLayout\<close> and 20 in \<^verbatim>\<open>handleAutoLayoutSubSteps\<close>. With margin 50
  the 1st node (index 0) lands at (50, 50) and the 4th node (index 3) at (50, 200).
\<close>

theorem autoLayout_grid:
  "length (handleAutoLayout True S) = length S \<and>
   (\<forall>i < length S.
      handleAutoLayout True S ! i =
        (S ! i)\<lparr>position := Some \<lparr>px = 50 + real (i mod 3) * 250,
                                   py = 50 + real (i div 3) * 150\<rparr>\<rparr>) \<and>
   (0 < length S \<longrightarrow> position (handleAutoLayout True S ! 0) = Some \<lparr>px = 50, py = 50\<rparr>) \<and>
   (3 < length S \<longrightarrow> position (handleAutoLayout True S ! 3) = Some \<lparr>px = 50, py = 200\<rparr>) \<and>
   length (subSteps (handleAutoLayoutSubSteps st)) = length (subSteps st) \<and>
   (\<forall>i < length (subSteps st).
      subSteps (handleAutoLayoutSubSteps st) ! i =
        (subSteps st ! i)\<lparr>position := Some \<lparr>px = 20 + real (i mod 3) * 250,
                                              py = 20 + real (i div 3) * 150\<rparr>\<rparr>)"
  by (simp add: handleAutoLayout_length handleAutoLayout_nth
        handleAutoLayoutSubSteps_length handleAutoLayoutSubSteps_nth)

text \<open>
  C3, witness: four sub-steps, laid out by both handlers; the hypotheses \<open>0 < length S\<close>,
  \<open>3 < length S\<close> and \<open>i < length S\<close> hold at \<open>i = 3\<close>.
\<close>

theorem autoLayout_grid_witness:
  "3 < length [exampleSubStep ''a'' None None, exampleSubStep ''b'' None None,
               exampleSubStep ''c'' None None, exampleSubStep ''d'' None None] \<and>
   position (handleAutoLayout True
      [exampleSubStep ''a'' None None, exampleSubStep ''b'' None None,
       exampleSubStep ''c'' None None, exampleSubStep ''d'' None None] ! 0)
     = Some \<lparr>px = 50, py = 50\<rparr> \<and>
   handleAutoLayout True
      [exampleSubStep ''a'' None None, exampleSubStep ''b'' None None,
       exampleSubStep ''c'' None None, exampleSubStep ''d'' None None] ! 3
     = exampleSubStep ''d'' (Some \<lparr>px = 50, py = 200\<rparr>) None \<and>
   subSteps (handleAutoLayoutSubSteps (exampleState
      [exampleSubStep ''a'' None None, exampleSubStep ''b'' None None,
       exampleSubStep ''c'' None None, exampleSubStep ''d'' None None])) ! 3
     = exampleSubStep ''d'' (Some \<lparr>px = 20, py = 170\<rparr>) None"
  using autoLayout_grid [of
      "[exampleSubStep ''a'' None None, exampleSubStep ''b'' None None,
        exampleSubStep ''c'' None None, exampleSubStep ''d'' None None]"
      "exampleState
        [exampleSubStep ''a'' None None, exampleSubStep ''b'' None None,
         exampleSubStep ''c'' None None, exampleSubStep ''d'' None None]"]
  by (simp add: exampleState_def exampleSubStep_def)

text \<open>
  C3, counterexample to the claim as stated: with margin 50 and vertical spacing 150 the
  4th node (index 3) lands at (50, 200), not at (50, 150).
\<close>

theorem autoLayout_fourth_counterexample:
  "position (handleAutoLayout True
      [exampleSubStep ''a'' None None, exampleSubStep ''b'' None None,
       exampleSubStep ''c'' None None, exampleSubStep ''d'' None None] ! 3)
   = Some \<lparr>px = 50, py = 200\<rparr> \<and>
   position (handleAutoLayout True
      [exampleSubStep ''a'' None None, exampleSubStep ''b'' None None,
       exampleSubStep ''c'' None None, exampleSubStep ''d'' None None] ! 3)
   \<noteq> Some \<lparr>px = 50, py = 150\<rparr>"
  by (simp add: handleAutoLayout_def enumerate_eq_zip exampleSubStep_def upt_rec
        MARGIN_def HORIZONTAL_SPACING_def VERTICAL_SPACING_def)

text \<open>
  C9. Auto-layout is idempotent on the node sequence: laying out a laid-out sequence
  changes nothing, in both handlers, and the sequence \<^verbatim>\<open>handleAutoLayoutSubSteps\<close>
  produces depends on the sub-steps of the state alone, since a position depends only on
  the index and on constants.
\<close>

theorem autoLayout_idempotent:
  "handleAutoLayout c (handleAutoLayout c S) = handleAutoLayout c S \<and>
   subSteps (handleAutoLayoutSubSteps (handleAutoLayoutSubSteps st)) =
     subSteps (handleAutoLayoutSubSteps st) \<and>
   subSteps (handleAutoLayoutSubSteps (st\<lparr>subSteps := S\<rparr>)) =
     subSteps (handleAutoLayoutSubSteps (st'\<lparr>subSteps := S\<rparr>))"
proof (intro conjI)
  show "handleAutoLayout c (handleAutoLayout c S) = handleAutoLayout c S"
    by (rule handleAutoLayout_idem)
  show "subSteps (handleAutoLayoutSubSteps (handleAutoLayoutSubSteps st)) =
        subSteps (handleAutoLayoutSubSteps st)"
    by (rule nth_equalityI)
       (simp_all add: handleAutoLayoutSubSteps_length handleAutoLayoutSubSteps_nth)
  show "subSteps (handleAutoLayoutSubSteps (st\<lparr>subSteps := S\<rparr>)) =
        subSteps (handleAutoLayoutSubSteps (st'\<lparr>subSteps := S\<rparr>))"
    by (rule nth_equalityI)
       (simp_all add: handleAutoLayoutSubSteps_length handleAutoLayoutSubSteps_nth)
qed

section \<open>Removing a sub-step\<close>

lemma handleRemoveSubStep_subSteps:
  "subSteps (handleRemoveSubStep True True st i) =
     map (\<lambda>ss. ss\<lparr>nextSubStepIds := map_option (filter (\<lambda>j. j \<noteq> i)) (nextSubStepIds ss)\<rparr>)
         (filter (\<lambda>ss. sid ss \<noteq> i) (subSteps st))"
  by (simp add: handleRemoveSubStep_def Let_def)

lemma or_empty_map_option_filter:
  "or_empty (map_option (filter P) v) = filter P (or_empty v)"
  by (cases v) (simp_all add: or_empty_def)

text \<open>
  C1. When editing is allowed and the user confirms, \<^verbatim>\<open>handleRemoveSubStep\<close> yields
  a node set without the node of the given id, in which no remaining node's
  \<^verbatim>\<open>nextSubStepIds\<close> contains that id; the remaining nodes keep their order and all
  other fields, and their \<^verbatim>\<open>nextSubStepIds\<close> lose nothing but that id. On A \<rightarrow> B,
  B \<rightarrow> C, removing B leaves exactly A and C, A without outgoing edge and C referenced
  by nobody.
\<close>

theorem removeNode_cascades:
  "i \<notin> sid ` set (subSteps (handleRemoveSubStep True True st i)) \<and>
   (\<forall>n \<in> set (subSteps (handleRemoveSubStep True True st i)).
      i \<notin> set (or_empty (nextSubStepIds n))) \<and>
   map (\<lambda>n. n\<lparr>nextSubStepIds := None\<rparr>) (subSteps (handleRemoveSubStep True True st i)) =
     map (\<lambda>n. n\<lparr>nextSubStepIds := None\<rparr>) (filter (\<lambda>n. sid n \<noteq> i) (subSteps st)) \<and>
   map (\<lambda>n. or_empty (nextSubStepIds n)) (subSteps (handleRemoveSubStep True True st i)) =
     map (\<lambda>n. filter (\<lambda>j. j \<noteq> i) (or_empty (nextSubStepIds n)))
         (filter (\<lambda>n. sid n \<noteq> i) (subSteps st)) \<and>
   subSteps (handleRemoveSubStep True True
       (exampleState [exampleSubStep ''A'' None (Some [''B'']),
                      exampleSubStep ''B'' None (Some [''C'']),
                      exampleSubStep ''C'' None None]) ''B'') =
     [exampleSubStep ''A'' None (Some []), exampleSubStep ''C'' None None]"
proof (intro conjI)
  have "sid ` set (subSteps (handleRemoveSubStep True True st i)) =
        sid ` set (filter (\<lambda>ss. sid ss \<noteq> i) (subSteps st))"
    by (simp add: handleRemoveSubStep_subSteps image_image)
  then show "i \<notin> sid ` set (subSteps (handleRemoveSubStep True True st i))"
    by auto
  show "\<forall>n \<in> set (subSteps (handleRemoveSubStep True True st i)).
      i \<notin> set (or_empty (nextSubStepIds n))"
    by (auto simp: handleRemoveSubStep_subSteps or_empty_map_option_filter)
  show "map (\<lambda>n. n\<lparr>nextSubStepIds := None\<rparr>) (subSteps (handleRemoveSubStep True True st i)) =
     map (\<lambda>n. n\<lparr>nextSubStepIds := None\<rparr>) (filter (\<lambda>n. sid n \<noteq> i) (subSteps st))"
    by (simp add: handleRemoveSubStep_subSteps)
  show "map (\<lambda>n. or_empty (nextSubStepIds n)) (subSteps (handleRemoveSubStep True True st i)) =
     map (\<lambda>n. filter (\<lambda>j. j \<noteq> i) (or_empty (nextSubStepIds n)))
         (filter (\<lambda>n. sid n \<noteq> i) (subSteps st))"
    by (simp add: handleRemoveSubStep_subSteps or_empty_map_option_filter comp_def)
  show "subSteps (handleRemoveSubStep True True
       (exampleState [exampleSubStep ''A'' None (Some [''B'']),
                      exampleSubStep ''B'' None (Some [''C'']),
                      exampleSubStep ''C'' None None]) ''B'') =
     [exampleSubStep ''A'' None (Some []), exampleSubStep ''C'' None None]"
    by (simp add: handleRemoveSubStep_subSteps exampleState_def exampleSubStep_def)
qed

text \<open>
  C1, witness: on A \<rightarrow> B, B \<rightarrow> C the node A remains after B is removed, and its
  edges no longer contain B.
\<close>

theorem removeNode_cascades_witness:
  "exampleSubStep ''A'' None (Some []) \<in>
     set (subSteps (handleRemoveSubStep True True
       (exampleState [exampleSubStep ''A'' None (Some [''B'']),
                      exampleSubStep ''B'' None (Some [''C'']),
                      exampleSubStep ''C'' None None]) ''B'')) \<and>
   ''B'' \<notin> set (or_empty (nextSubStepIds (exampleSubStep ''A'' None (Some []))))"
  using removeNode_cascades [of "''B''"
      "exampleState [exampleSubStep ''A'' None (Some [''B'']),
                      exampleSubStep ''B'' None (Some [''C'']),
                      exampleSubStep ''C'' None None]"]
  by simp

text \<open>
  The variant of part\_000 only filters the node out: sub-steps that carry edges keep them.
\<close>

lemma removeSubStep_keeps_edges:
  "removeSubStep True
     [exampleSubStep ''A'' None (Some [''B'']), exampleSubStep ''B'' None (Some [''C'']),
      exampleSubStep ''C'' None None] ''B'' =
   [exampleSubStep ''A'' None (Some [''B'']), exampleSubStep ''C'' None None]"
  by (simp add: removeSubStep_def exampleSubStep_def)

section \<open>Moving a card\<close>

lemma clamp_facts:
  fixes X w c :: real
  shows "0 \<le> max 0 (min X (w - c)) \<and>
         (c \<le> w \<longrightarrow> max 0 (min X (w - c)) \<le> w - c) \<and>
         (w < c \<longrightarrow> max 0 (min X (w - c)) = 0) \<and>
         (0 \<le> X \<and> X \<le> w - c \<longrightarrow> max 0 (min X (w - c)) = X)"
  by (simp add: max_def min_def)

lemma handleSubStepDrop_subSteps:
  assumes "draggedSubStepId st = Some d" and "d \<noteq> []" and "flowContainer st = Some c"
  shows "subSteps (handleSubStepDrop True st e) =
      map (\<lambda>ss. if sid ss = d
                 then ss\<lparr>position :=
                   Some \<lparr>px = max 0 (min (clientX e - rect_left c - px (dragOffset st))
                                      (width (case subStepCanvasSize st of
                                                None \<Rightarrow> \<lparr>width = 1200, height = 800\<rparr>
                                              | Some s \<Rightarrow> s) - 200)),
                         py = max 0 (min (clientY e - rect_top c - py (dragOffset st))
                                      (height (case subStepCanvasSize st of
                                                None \<Rightarrow> \<lparr>width = 1200, height = 800\<rparr>
                                              | Some s \<Rightarrow> s) - 120))\<rparr>\<rparr>
                 else ss) (subSteps st)"
  using assms by (simp add: handleSubStepDrop_def Let_def CARD_WIDTH_def CARD_HEIGHT_def)

lemma moved_position:
  assumes "n \<in> set (map (\<lambda>ss. if sid ss = d then ss\<lparr>position := Some P\<rparr> else ss) xs)"
    and "sid n = d"
  shows "position n = Some P"
proof -
  from assms(1) obtain ss where n: "n = (if sid ss = d then ss\<lparr>position := Some P\<rparr> else ss)"
    by (auto simp only: set_map image_iff)
  show ?thesis
  proof (cases "sid ss = d")
    case True
    with n show ?thesis by simp
  next
    case False
    with n assms(2) show ?thesis by simp
  qed
qed


text \<open>
  C5. While a card (of non-empty id) is dragged, the drop handler moves it to the proposed position clamped
  componentwise: \<open>x\<close> into \<open>[0, canvasSize.width - 200]\<close> and \<open>y\<close> into
  \<open>[0, canvasSize.height - 120]\<close>, every other card unchanged. A position inside the
  range is kept, and when the canvas is smaller than the card the coordinate is 0. On the
  (1200, 800) canvas a drop at (9999, 9999) puts the card at (1000, 680); on a (100, 50)
  canvas it puts it at (0, 0).
\<close>

theorem moveTo_clamps:
  "(draggedSubStepId st = Some d \<and> d \<noteq> [] \<and> flowContainer st = Some c \<and>
    cs = (case subStepCanvasSize st of None \<Rightarrow> \<lparr>width = 1200, height = 800\<rparr> | Some s \<Rightarrow> s) \<and>
    X = clientX e - rect_left c - px (dragOffset st) \<and>
    Y = clientY e - rect_top c - py (dragOffset st) \<longrightarrow>
    subSteps (handleSubStepDrop True st e) =
      map (\<lambda>ss. if sid ss = d
                 then ss\<lparr>position := Some \<lparr>px = max 0 (min X (width cs - 200)),
                                           py = max 0 (min Y (height cs - 120))\<rparr>\<rparr>
                 else ss) (subSteps st) \<and>
    (\<forall>n \<in> set (subSteps (handleSubStepDrop True st e)). sid n = d \<longrightarrow>
       (\<exists>p. position n = Some p \<and>
          px p = max 0 (min X (width cs - 200)) \<and>
          py p = max 0 (min Y (height cs - 120)) \<and>
          0 \<le> px p \<and> 0 \<le> py p \<and>
          (200 \<le> width cs \<longrightarrow> px p \<le> width cs - 200) \<and>
          (120 \<le> height cs \<longrightarrow> py p \<le> height cs - 120) \<and>
          (width cs < 200 \<longrightarrow> px p = 0) \<and>
          (height cs < 120 \<longrightarrow> py p = 0) \<and>
          (0 \<le> X \<and> X \<le> width cs - 200 \<longrightarrow> px p = X) \<and>
          (0 \<le> Y \<and> Y \<le> height cs - 120 \<longrightarrow> py p = Y)))) \<and>
   subSteps (handleSubStepDrop True
       ((exampleState [exampleSubStep ''A'' (Some \<lparr>px = 10, py = 10\<rparr>) None])
          \<lparr>draggedSubStepId := Some ''A''\<rparr>)
       \<lparr>clientX = 9999, clientY = 9999\<rparr>) =
     [exampleSubStep ''A'' (Some \<lparr>px = 1000, py = 680\<rparr>) None] \<and>
   subSteps (handleSubStepDrop True
       ((exampleState [exampleSubStep ''A'' (Some \<lparr>px = 10, py = 10\<rparr>) None])
          \<lparr>subStepCanvasSize := Some \<lparr>width = 100, height = 50\<rparr>,
           draggedSubStepId := Some ''A''\<rparr>)
       \<lparr>clientX = 30, clientY = 9999\<rparr>) =
     [exampleSubStep ''A'' (Some \<lparr>px = 0, py = 0\<rparr>) None]"
proof (intro conjI impI)
  assume a: "draggedSubStepId st = Some d \<and> d \<noteq> [] \<and> flowContainer st = Some c \<and>
    cs = (case subStepCanvasSize st of None \<Rightarrow> \<lparr>width = 1200, height = 800\<rparr> | Some s \<Rightarrow> s) \<and>
    X = clientX e - rect_left c - px (dragOffset st) \<and>
    Y = clientY e - rect_top c - py (dragOffset st)"
  define P where "P = \<lparr>px = max 0 (min X (width cs - 200)), py = max 0 (min Y (height cs - 120))\<rparr>"
  from a have d: "draggedSubStepId st = Some d" and dn: "d \<noteq> []"
    and c: "flowContainer st = Some c"
    by simp_all
  from a show eq: "subSteps (handleSubStepDrop True st e) =
      map (\<lambda>ss. if sid ss = d
                 then ss\<lparr>position := Some \<lparr>px = max 0 (min X (width cs - 200)),
                                           py = max 0 (min Y (height cs - 120))\<rparr>\<rparr>
                 else ss) (subSteps st)"
    by (simp only: handleSubStepDrop_subSteps [OF d dn c])
  show "\<forall>n \<in> set (subSteps (handleSubStepDrop True st e)). sid n = d \<longrightarrow>
       (\<exists>p. position n = Some p \<and>
          px p = max 0 (min X (width cs - 200)) \<and>
          py p = max 0 (min Y (height cs - 120)) \<and>
          0 \<le> px p \<and> 0 \<le> py p \<and>
          (200 \<le> width cs \<longrightarrow> px p \<le> width cs - 200) \<and>
          (120 \<le> height cs \<longrightarrow> py p \<le> height cs - 120) \<and>
          (width cs < 200 \<longrightarrow> px p = 0) \<and>
          (height cs < 120 \<longrightarrow> py p = 0) \<and>
          (0 \<le> X \<and> X \<le> width cs - 200 \<longrightarrow> px p = X) \<and>
          (0 \<le> Y \<and> Y \<le> height cs - 120 \<longrightarrow> py p = Y))"
  proof (intro ballI impI)
    fix n
    assume n: "n \<in> set (subSteps (handleSubStepDrop True st e))" and nd: "sid n = d"
    from n have "n \<in> set (map (\<lambda>ss. if sid ss = d then ss\<lparr>position := Some P\<rparr> else ss)
                              (subSteps st))"
      unfolding eq P_def .
    then have pos: "position n = Some P"
      using nd by (rule moved_position)
    have "px P = max 0 (min X (width cs - 200)) \<and>
          py P = max 0 (min Y (height cs - 120)) \<and>
          0 \<le> px P \<and> 0 \<le> py P \<and>
          (200 \<le> width cs \<longrightarrow> px P \<le> width cs - 200) \<and>
          (120 \<le> height cs \<longrightarrow> py P \<le> height cs - 120) \<and>
          (width cs < 200 \<longrightarrow> px P = 0) \<and>
          (height cs < 120 \<longrightarrow> py P = 0) \<and>
          (0 \<le> X \<and> X \<le> width cs - 200 \<longrightarrow> px P = X) \<and>
          (0 \<le> Y \<and> Y \<le> height cs - 120 \<longrightarrow> py P = Y)"
      using clamp_facts [of X "width cs" 200] clamp_facts [of Y "height cs" 120]
      by (simp add: P_def)
    with pos show "\<exists>p. position n = Some p \<and>
          px p = max 0 (min X (width cs - 200)) \<and>
          py p = max 0 (min Y (height cs - 120)) \<and>
          0 \<le> px p \<and> 0 \<le> py p \<and>
          (200 \<le> width cs \<longrightarrow> px p \<le> width cs - 200) \<and>
          (120 \<le> height cs \<longrightarrow> py p \<le> height cs - 120) \<and>
          (width cs < 200 \<longrightarrow> px p = 0) \<and>
          (height cs < 120 \<longrightarrow> py p = 0) \<and>
          (0 \<le> X \<and> X \<le> width cs - 200 \<longrightarrow> px p = X) \<and>
          (0 \<le> Y \<and> Y \<le> height cs - 120 \<longrightarrow> py p = Y)"
      by blast
  qed
next
  show "subSteps (handleSubStepDrop True
       ((exampleState [exampleSubStep ''A'' (Some \<lparr>px = 10, py = 10\<rparr>) None])
          \<lparr>draggedSubStepId := Some ''A''\<rparr>)
       \<lparr>clientX = 9999, clientY = 9999\<rparr>) =
     [exampleSubStep ''A'' (Some \<lparr>px = 1000, py = 680\<rparr>) None]"
    by (simp add: handleSubStepDrop_def Let_def CARD_WIDTH_def CARD_HEIGHT_def
          exampleState_def exampleSubStep_def)
next
  show "subSteps (handleSubStepDrop True
       ((exampleState [exampleSubStep ''A'' (Some \<lparr>px = 10, py = 10\<rparr>) None])
          \<lparr>subStepCanvasSize := Some \<lparr>width = 100, height = 50\<rparr>,
           draggedSubStepId := Some ''A''\<rparr>)
       \<lparr>clientX = 30, clientY = 9999\<rparr>) =
     [exampleSubStep ''A'' (Some \<lparr>px = 0, py = 0\<rparr>) None]"
    by (simp add: handleSubStepDrop_def Let_def CARD_WIDTH_def CARD_HEIGHT_def
          exampleState_def exampleSubStep_def)
qed

text \<open>
  C5, witness: a drag of the card A is in progress on the mounted (1200, 800) canvas, and
  the drop at (9999, 9999) is clamped to (1000, 680).
\<close>

theorem moveTo_clamps_witness:
  "draggedSubStepId ((exampleState [exampleSubStep ''A'' (Some \<lparr>px = 10, py = 10\<rparr>) None])
          \<lparr>draggedSubStepId := Some ''A''\<rparr>) = Some ''A'' \<and>
   ''A'' \<noteq> [] \<and>
   flowContainer ((exampleState [exampleSubStep ''A'' (Some \<lparr>px = 10, py = 10\<rparr>) None])
          \<lparr>draggedSubStepId := Some ''A''\<rparr>) =
     Some \<lparr>rect_left = 0, rect_top = 0, scrollLeft = 0, scrollTop = 0\<rparr> \<and>
   subSteps (handleSubStepDrop True
       ((exampleState [exampleSubStep ''A'' (Some \<lparr>px = 10, py = 10\<rparr>) None])
          \<lparr>draggedSubStepId := Some ''A''\<rparr>)
       \<lparr>clientX = 9999, clientY = 9999\<rparr>) =
     map (\<lambda>ss. if sid ss = ''A''
                then ss\<lparr>position := Some \<lparr>px = 1000, py = 680\<rparr>\<rparr>
                else ss)
         [exampleSubStep ''A'' (Some \<lparr>px = 10, py = 10\<rparr>) None]"
  using moveTo_clamps [of
      "(exampleState [exampleSubStep ''A'' (Some \<lparr>px = 10, py = 10\<rparr>) None])
          \<lparr>draggedSubStepId := Some ''A''\<rparr>"
      "''A''" "\<lparr>rect_left = 0, rect_top = 0, scrollLeft = 0, scrollTop = 0\<rparr>"
      "\<lparr>width = 1200, height = 800\<rparr>" 9999 "\<lparr>clientX = 9999, clientY = 9999\<rparr>" 9999]
  by (simp add: exampleState_def)

section \<open>Connecting sub-steps\<close>

lemma set_insert_fold:
  "set (fold (\<lambda>v acc. if v \<in> set acc then acc else acc @ [v]) xs acc) = set acc \<union> set xs"
  by (induction xs arbitrary: acc) auto

lemma distinct_insert_fold:
  "distinct acc \<Longrightarrow> distinct (fold (\<lambda>v acc. if v \<in> set acc then acc else acc @ [v]) xs acc)"
  by (induction xs arbitrary: acc) auto

lemma insert_fold_append_distinct:
  "distinct xs \<Longrightarrow> set xs \<inter> set acc = {} \<Longrightarrow>
   fold (\<lambda>v acc. if v \<in> set acc then acc else acc @ [v]) xs acc = acc @ xs"
  by (induction xs arbitrary: acc) auto

lemma set_array_from_set: "set (array_from_set xs) = set xs"
  by (simp add: array_from_set_def set_insert_fold)

lemma distinct_array_from_set: "distinct (array_from_set xs)"
  by (simp add: array_from_set_def distinct_insert_fold)

lemma array_from_set_distinct: "distinct xs \<Longrightarrow> array_from_set xs = xs"
  using insert_fold_append_distinct [of xs "[]"] by (simp add: array_from_set_def)

lemma array_from_set_snoc:
  "array_from_set (xs @ [t]) =
     (if t \<in> set xs then array_from_set xs else array_from_set xs @ [t])"
  by (simp add: array_from_set_def set_insert_fold)

lemma array_from_set_add_twice:
  "array_from_set (array_from_set (xs @ [t]) @ [t]) = array_from_set (xs @ [t])"
proof -
  have "t \<in> set (array_from_set (xs @ [t]))"
    by (simp add: set_array_from_set)
  then have "array_from_set (array_from_set (xs @ [t]) @ [t]) =
             array_from_set (array_from_set (xs @ [t]))"
    by (simp add: array_from_set_snoc)
  also have "\<dots> = array_from_set (xs @ [t])"
    by (rule array_from_set_distinct) (rule distinct_array_from_set)
  finally show ?thesis .
qed

lemma handleEndConnection_subSteps:
  "connectingState st = Some cs \<Longrightarrow> fromId cs \<noteq> t \<Longrightarrow>
   subSteps (handleEndConnection True st t) =
     map (\<lambda>ss. if sid ss = fromId cs
                then ss\<lparr>nextSubStepIds :=
                         Some (array_from_set (or_empty (nextSubStepIds ss) @ [t]))\<rparr>
                else ss) (subSteps st)"
  by (simp add: handleEndConnection_def)

lemma handleEndConnection_noop:
  "connectingState st = None \<or> \<not> canEdit \<or> map_option fromId (connectingState st) = Some t \<Longrightarrow>
   subSteps (handleEndConnection canEdit st t) = subSteps st"
  by (cases "connectingState st") (auto simp: handleEndConnection_def)

lemma map_if_absent:
  "s \<notin> sid ` set xs \<Longrightarrow> map (\<lambda>ss. if sid ss = s then f ss else ss) xs = xs"
  by (induction xs) auto

lemma handleEndConnection_idem:
  assumes "connectingState st = Some cs"
  shows "subSteps (handleEndConnection True
            ((handleEndConnection True st t)\<lparr>connectingState := Some cs\<rparr>) t) =
         subSteps (handleEndConnection True st t)"
proof (cases "fromId cs = t")
  case True
  with assms show ?thesis by (simp add: handleEndConnection_def)
next
  case False
  have "subSteps (handleEndConnection True
            ((handleEndConnection True st t)\<lparr>connectingState := Some cs\<rparr>) t) =
        map (\<lambda>ss. if sid ss = fromId cs
                then ss\<lparr>nextSubStepIds :=
                         Some (array_from_set (or_empty (nextSubStepIds ss) @ [t]))\<rparr>
                else ss) (subSteps (handleEndConnection True st t))"
    using False by (simp add: handleEndConnection_subSteps)
  also have "\<dots> = subSteps (handleEndConnection True st t)"
    unfolding handleEndConnection_subSteps [OF assms False]
    by (rule nth_equalityI) (simp_all add: or_empty_def array_from_set_add_twice)
  finally show ?thesis .
qed


lemma handleEndConnection_nth:
  assumes cs: "connectingState st = Some cs" and ne: "fromId cs \<noteq> t"
    and k: "k < length (subSteps st)"
  shows "(sid (subSteps st ! k) \<noteq> fromId cs \<longrightarrow>
            subSteps (handleEndConnection True st t) ! k = subSteps st ! k) \<and>
         (sid (subSteps st ! k) = fromId cs \<longrightarrow>
            (\<exists>L. subSteps (handleEndConnection True st t) ! k =
                    (subSteps st ! k)\<lparr>nextSubStepIds := Some L\<rparr> \<and>
                 set L = insert t (set (or_empty (nextSubStepIds (subSteps st ! k)))) \<and>
                 distinct L \<and>
                 (distinct (or_empty (nextSubStepIds (subSteps st ! k))) \<and>
                  t \<in> set (or_empty (nextSubStepIds (subSteps st ! k))) \<longrightarrow>
                    L = or_empty (nextSubStepIds (subSteps st ! k))) \<and>
                 (distinct (or_empty (nextSubStepIds (subSteps st ! k))) \<and>
                  t \<notin> set (or_empty (nextSubStepIds (subSteps st ! k))) \<longrightarrow>
                    L = or_empty (nextSubStepIds (subSteps st ! k)) @ [t])))"
proof (intro conjI impI)
  assume "sid (subSteps st ! k) \<noteq> fromId cs"
  then show "subSteps (handleEndConnection True st t) ! k = subSteps st ! k"
    using k by (simp add: handleEndConnection_subSteps [OF cs ne])
next
  assume eq: "sid (subSteps st ! k) = fromId cs"
  let ?old = "or_empty (nextSubStepIds (subSteps st ! k))"
  let ?L = "array_from_set (?old @ [t])"
  have 1: "subSteps (handleEndConnection True st t) ! k =
             (subSteps st ! k)\<lparr>nextSubStepIds := Some ?L\<rparr>"
    using k eq by (simp add: handleEndConnection_subSteps [OF cs ne])
  have 2: "set ?L = insert t (set ?old)"
    by (simp add: set_array_from_set)
  have 3: "distinct ?L"
    by (rule distinct_array_from_set)
  have 4: "distinct ?old \<and> t \<in> set ?old \<longrightarrow> ?L = ?old"
    by (simp add: array_from_set_snoc array_from_set_distinct)
  have 5: "distinct ?old \<and> t \<notin> set ?old \<longrightarrow> ?L = ?old @ [t]"
    by (simp add: array_from_set_snoc array_from_set_distinct)
  from 1 2 3 4 5
  show "\<exists>L. subSteps (handleEndConnection True st t) ! k =
                    (subSteps st ! k)\<lparr>nextSubStepIds := Some L\<rparr> \<and>
                 set L = insert t (set ?old) \<and>
                 distinct L \<and>
                 (distinct ?old \<and> t \<in> set ?old \<longrightarrow> L = ?old) \<and>
                 (distinct ?old \<and> t \<notin> set ?old \<longrightarrow> L = ?old @ [t])"
    by blast
qed

text \<open>
  C4, as the code has it. Ending a connect gesture on the card it started from leaves the
  node set unchanged, and so does a gesture whose source id is absent from the node set.
  Otherwise (editing allowed) every node with the source id gets the target id added to its
  \<^verbatim>\<open>nextSubStepIds\<close> with set semantics, whether or not a node with the target id
  exists: the new list is duplicate-free, holds the old ids and the target, is the old list
  when that was duplicate-free and held the target already, and the old list followed by
  the target when it did not; all other nodes and fields are unchanged. Connecting the same
  pair a second time changes nothing.
\<close>

theorem connect_semantics:
  "(map_option fromId (connectingState st) = Some t \<longrightarrow>
      subSteps (handleEndConnection canEdit st t) = subSteps st) \<and>
   (connectingState st = Some cs \<and> fromId cs \<notin> sid ` set (subSteps st) \<longrightarrow>
      subSteps (handleEndConnection canEdit st t) = subSteps st) \<and>
   (connectingState st = Some cs \<and> fromId cs \<noteq> t \<longrightarrow>
      length (subSteps (handleEndConnection True st t)) = length (subSteps st) \<and>
      (\<forall>k < length (subSteps st).
         (sid (subSteps st ! k) \<noteq> fromId cs \<longrightarrow>
            subSteps (handleEndConnection True st t) ! k = subSteps st ! k) \<and>
         (sid (subSteps st ! k) = fromId cs \<longrightarrow>
            (\<exists>L. subSteps (handleEndConnection True st t) ! k =
                    (subSteps st ! k)\<lparr>nextSubStepIds := Some L\<rparr> \<and>
                 set L = insert t (set (or_empty (nextSubStepIds (subSteps st ! k)))) \<and>
                 distinct L \<and>
                 (distinct (or_empty (nextSubStepIds (subSteps st ! k))) \<and>
                  t \<in> set (or_empty (nextSubStepIds (subSteps st ! k))) \<longrightarrow>
                    L = or_empty (nextSubStepIds (subSteps st ! k))) \<and>
                 (distinct (or_empty (nextSubStepIds (subSteps st ! k))) \<and>
                  t \<notin> set (or_empty (nextSubStepIds (subSteps st ! k))) \<longrightarrow>
                    L = or_empty (nextSubStepIds (subSteps st ! k)) @ [t]))))) \<and>
   (connectingState st = Some cs \<longrightarrow>
      subSteps (handleEndConnection True
         ((handleEndConnection True st t)\<lparr>connectingState := Some cs\<rparr>) t) =
      subSteps (handleEndConnection True st t)) \<and>
   subSteps (handleEndConnection True
      ((exampleState [exampleSubStep ''A'' None None, exampleSubStep ''B'' None None])
         \<lparr>connectingState := Some \<lparr>fromId = ''A'', fromPos = \<lparr>px = 0, py = 0\<rparr>\<rparr>\<rparr>) ''B'') =
     [exampleSubStep ''A'' None (Some [''B'']), exampleSubStep ''B'' None None]"
proof -
  have p1: "map_option fromId (connectingState st) = Some t \<longrightarrow>
      subSteps (handleEndConnection canEdit st t) = subSteps st"
    by (simp add: handleEndConnection_noop)
  have p2: "connectingState st = Some cs \<and> fromId cs \<notin> sid ` set (subSteps st) \<longrightarrow>
      subSteps (handleEndConnection canEdit st t) = subSteps st"
    by (simp add: handleEndConnection_def map_if_absent)
  have p3: "connectingState st = Some cs \<and> fromId cs \<noteq> t \<longrightarrow>
      length (subSteps (handleEndConnection True st t)) = length (subSteps st) \<and>
      (\<forall>k < length (subSteps st).
         (sid (subSteps st ! k) \<noteq> fromId cs \<longrightarrow>
            subSteps (handleEndConnection True st t) ! k = subSteps st ! k) \<and>
         (sid (subSteps st ! k) = fromId cs \<longrightarrow>
            (\<exists>L. subSteps (handleEndConnection True st t) ! k =
                    (subSteps st ! k)\<lparr>nextSubStepIds := Some L\<rparr> \<and>
                 set L = insert t (set (or_empty (nextSubStepIds (subSteps st ! k)))) \<and>
                 distinct L \<and>
                 (distinct (or_empty (nextSubStepIds (subSteps st ! k))) \<and>
                  t \<in> set (or_empty (nextSubStepIds (subSteps st ! k))) \<longrightarrow>
                    L = or_empty (nextSubStepIds (subSteps st ! k))) \<and>
                 (distinct (or_empty (nextSubStepIds (subSteps st ! k))) \<and>
                  t \<notin> set (or_empty (nextSubStepIds (subSteps st ! k))) \<longrightarrow>
                    L = or_empty (nextSubStepIds (subSteps st ! k)) @ [t]))))"
  proof (rule impI, rule conjI)
    assume a: "connectingState st = Some cs \<and> fromId cs \<noteq> t"
    then show "length (subSteps (handleEndConnection True st t)) = length (subSteps st)"
      by (simp add: handleEndConnection_subSteps)
    from a have cs: "connectingState st = Some cs" and ne: "fromId cs \<noteq> t" by simp_all
    show "\<forall>k < length (subSteps st).
         (sid (subSteps st ! k) \<noteq> fromId cs \<longrightarrow>
            subSteps (handleEndConnection True st t) ! k = subSteps st ! k) \<and>
         (sid (subSteps st ! k) = fromId cs \<longrightarrow>
            (\<exists>L. subSteps (handleEndConnection True st t) ! k =
                    (subSteps st ! k)\<lparr>nextSubStepIds := Some L\<rparr> \<and>
                 set L = insert t (set (or_empty (nextSubStepIds (subSteps st ! k)))) \<and>
                 distinct L \<and>
                 (distinct (or_empty (nextSubStepIds (subSteps st ! k))) \<and>
                  t \<in> set (or_empty (nextSubStepIds (subSteps st ! k))) \<longrightarrow>
                    L = or_empty (nextSubStepIds (subSteps st ! k))) \<and>
                 (distinct (or_empty (nextSubStepIds (subSteps st ! k))) \<and>
                  t \<notin> set (or_empty (nextSubStepIds (subSteps st ! k))) \<longrightarrow>
                    L = or_empty (nextSubStepIds (subSteps st ! k)) @ [t])))"
      using handleEndConnection_nth [OF cs ne] by blast
  qed
  have p4: "connectingState st = Some cs \<longrightarrow>
      subSteps (handleEndConnection True
         ((handleEndConnection True st t)\<lparr>connectingState := Some cs\<rparr>) t) =
      subSteps (handleEndConnection True st t)"
    by (rule impI) (rule handleEndConnection_idem)
  have p5: "subSteps (handleEndConnection True
      ((exampleState [exampleSubStep ''A'' None None, exampleSubStep ''B'' None None])
         \<lparr>connectingState := Some \<lparr>fromId = ''A'', fromPos = \<lparr>px = 0, py = 0\<rparr>\<rparr>\<rparr>) ''B'') =
     [exampleSubStep ''A'' None (Some [''B'']), exampleSubStep ''B'' None None]"
    by (simp add: handleEndConnection_def exampleState_def exampleSubStep_def
          or_empty_def array_from_set_def)
  show ?thesis
    apply (rule conjI, rule p1)
    apply (rule conjI, rule p2)
    apply (rule conjI, rule p3)
    apply (rule conjI, rule p4)
    apply (rule p5)
    done
qed

text \<open>
  C4, witness: a gesture from A is in progress on the nodes A and B and ends on B.
\<close>

theorem connect_semantics_witness:
  "connectingState ((exampleState [exampleSubStep ''A'' None None, exampleSubStep ''B'' None None])
         \<lparr>connectingState := Some \<lparr>fromId = ''A'', fromPos = \<lparr>px = 0, py = 0\<rparr>\<rparr>\<rparr>) =
     Some \<lparr>fromId = ''A'', fromPos = \<lparr>px = 0, py = 0\<rparr>\<rparr> \<and>
   fromId \<lparr>fromId = ''A'', fromPos = \<lparr>px = 0, py = 0\<rparr>\<rparr> \<noteq> ''B'' \<and>
   length (subSteps (handleEndConnection True
      ((exampleState [exampleSubStep ''A'' None None, exampleSubStep ''B'' None None])
         \<lparr>connectingState := Some \<lparr>fromId = ''A'', fromPos = \<lparr>px = 0, py = 0\<rparr>\<rparr>\<rparr>) ''B'')) = 2 \<and>
   subSteps (handleEndConnection True
      ((exampleState [exampleSubStep ''A'' None None, exampleSubStep ''B'' None None])
         \<lparr>connectingState := Some \<lparr>fromId = ''A'', fromPos = \<lparr>px = 0, py = 0\<rparr>\<rparr>\<rparr>) ''B'') ! 1 =
     exampleSubStep ''B'' None None \<and>
   subSteps (handleEndConnection True
      ((handleEndConnection True
         ((exampleState [exampleSubStep ''A'' None None, exampleSubStep ''B'' None None])
            \<lparr>connectingState := Some \<lparr>fromId = ''A'', fromPos = \<lparr>px = 0, py = 0\<rparr>\<rparr>\<rparr>) ''B'')
         \<lparr>connectingState := Some \<lparr>fromId = ''A'', fromPos = \<lparr>px = 0, py = 0\<rparr>\<rparr>\<rparr>) ''B'') =
     subSteps (handleEndConnection True
      ((exampleState [exampleSubStep ''A'' None None, exampleSubStep ''B'' None None])
         \<lparr>connectingState := Some \<lparr>fromId = ''A'', fromPos = \<lparr>px = 0, py = 0\<rparr>\<rparr>\<rparr>) ''B'')"
  using connect_semantics [of
      "(exampleState [exampleSubStep ''A'' None None, exampleSubStep ''B'' None None])
         \<lparr>connectingState := Some \<lparr>fromId = ''A'', fromPos = \<lparr>px = 0, py = 0\<rparr>\<rparr>\<rparr>"
      "''B''" True "\<lparr>fromId = ''A'', fromPos = \<lparr>px = 0, py = 0\<rparr>\<rparr>"]
  by (simp add: exampleState_def exampleSubStep_def)

text \<open>
  C4, counterexample to the claim as stated: no node has the id \<open>ghost\<close>, yet ending
  the gesture on it changes the node set, A gaining the edge to \<open>ghost\<close>.
\<close>

theorem connect_absent_target_counterexample:
  "''ghost'' \<notin> sid ` set (subSteps (exampleState [exampleSubStep ''A'' None None])) \<and>
   subSteps (handleEndConnection True
      ((exampleState [exampleSubStep ''A'' None None])
         \<lparr>connectingState := Some \<lparr>fromId = ''A'', fromPos = \<lparr>px = 0, py = 0\<rparr>\<rparr>\<rparr>) ''ghost'') =
     [exampleSubStep ''A'' None (Some [''ghost''])] \<and>
   subSteps (handleEndConnection True
      ((exampleState [exampleSubStep ''A'' None None])
         \<lparr>connectingState := Some \<lparr>fromId = ''A'', fromPos = \<lparr>px = 0, py = 0\<rparr>\<rparr>\<rparr>) ''ghost'') \<noteq>
     subSteps ((exampleState [exampleSubStep ''A'' None None])
         \<lparr>connectingState := Some \<lparr>fromId = ''A'', fromPos = \<lparr>px = 0, py = 0\<rparr>\<rparr>\<rparr>)"
  by (simp add: handleEndConnection_def exampleState_def exampleSubStep_def
        or_empty_def array_from_set_def)

section \<open>Referential integrity\<close>

lemma refIntegrity_maps:
  "refIntegrity ns \<longleftrightarrow>
     (\<forall>L \<in> set (map nextSubStepIds ns). set (or_empty L) \<subseteq> set (map sid ns))"
  unfolding refIntegrity_def by (simp add: subset_iff) blast

lemma refIntegrity_cong:
  "map sid xs = map sid ys \<Longrightarrow> map nextSubStepIds xs = map nextSubStepIds ys \<Longrightarrow>
   refIntegrity xs = refIntegrity ys"
  by (simp only: refIntegrity_maps)

lemma refIntegrity_mapI:
  assumes inv: "refIntegrity ns"
    and ids: "\<And>n. n \<in> set ns \<Longrightarrow> sid (f n) = sid n"
    and edges: "\<And>n. n \<in> set ns \<Longrightarrow>
        set (or_empty (nextSubStepIds (f n))) \<subseteq>
          set (or_empty (nextSubStepIds n)) \<union> sid ` set ns"
  shows "refIntegrity (map f ns)"
proof -
  have img: "sid ` set (map f ns) = sid ` set ns"
    using ids by (simp add: image_image)
  show ?thesis
    unfolding refIntegrity_def img
  proof (intro ballI)
    fix n' i
    assume n': "n' \<in> set (map f ns)" and i: "i \<in> set (or_empty (nextSubStepIds n'))"
    from n' obtain n where n: "n \<in> set ns" and eq: "n' = f n"
      by (auto simp only: set_map image_iff)
    from i eq edges [OF n] have "i \<in> set (or_empty (nextSubStepIds n)) \<union> sid ` set ns"
      by blast
    with inv n show "i \<in> sid ` set ns"
      unfolding refIntegrity_def by blast
  qed
qed

lemma refIntegrity_append:
  assumes inv: "refIntegrity ns"
    and new: "\<And>n. n \<in> set new \<Longrightarrow> or_empty (nextSubStepIds n) = []"
  shows "refIntegrity (ns @ new)"
  unfolding refIntegrity_def
proof (intro ballI)
  fix n i
  assume n: "n \<in> set (ns @ new)" and i: "i \<in> set (or_empty (nextSubStepIds n))"
  from i new have "n \<notin> set new" by fastforce
  with n have "n \<in> set ns" by simp
  with inv i have "i \<in> sid ` set ns" unfolding refIntegrity_def by blast
  then show "i \<in> sid ` set (ns @ new)" by auto
qed

lemma refIntegrity_remove:
  assumes inv: "refIntegrity (subSteps st)"
  shows "refIntegrity (subSteps (handleRemoveSubStep canEdit confirmed st i))"
proof (cases "canEdit \<and> confirmed")
  case False
  with inv show ?thesis by (auto simp: handleRemoveSubStep_def)
next
  case True
  then have ce: "canEdit = True" "confirmed = True" by simp_all
  let ?keep = "filter (\<lambda>ss. sid ss \<noteq> i) (subSteps st)"
  let ?f = "\<lambda>ss. ss\<lparr>nextSubStepIds := map_option (filter (\<lambda>j. j \<noteq> i)) (nextSubStepIds ss)\<rparr>"
  have img: "sid ` set (map ?f ?keep) = sid ` set ?keep"
    by (simp add: image_image)
  show ?thesis
    unfolding ce handleRemoveSubStep_subSteps refIntegrity_def img
  proof (intro ballI)
    fix n' j
    assume n': "n' \<in> set (map ?f ?keep)" and j: "j \<in> set (or_empty (nextSubStepIds n'))"
    from n' obtain n where n: "n \<in> set ?keep" and eq: "n' = ?f n"
      by (auto simp only: set_map image_iff)
    from j eq have j2: "j \<in> set (or_empty (nextSubStepIds n))" and ji: "j \<noteq> i"
      by (simp_all add: or_empty_map_option_filter)
    from n have "n \<in> set (subSteps st)" by simp
    with inv j2 have "j \<in> sid ` set (subSteps st)" unfolding refIntegrity_def by blast
    then obtain m where m: "m \<in> set (subSteps st)" and jm: "j = sid m" by blast
    from m jm ji have "m \<in> set ?keep" by simp
    with jm show "j \<in> sid ` set ?keep" by blast
  qed
qed


lemma or_empty_simps:
  "or_empty None = []" "or_empty (Some l) = l"
  by (simp_all add: or_empty_def)

lemma handleAddSubStep_subSteps:
  "subSteps (snd (handleAddSubStep True gen g st)) =
     subSteps st @
       [\<lparr>sid = fst (gen g ''substep''), stext = NEW_SUBSTEP_TEXT, snotes = Some [],
         position = Some \<lparr>px = 50 + real (length (subSteps st)) * 220, py = 50\<rparr>,
         nextSubStepIds = None, actionItems = Some [], status = None\<rparr>]"
  by (simp add: handleAddSubStep_def Let_def case_prod_beta)

lemma refIntegrity_add:
  assumes inv: "refIntegrity (subSteps st)"
  shows "refIntegrity (subSteps (snd (handleAddSubStep canEdit gen g st)))"
proof (cases canEdit)
  case False
  with inv show ?thesis by (simp add: handleAddSubStep_def)
next
  case True
  then have ce: "canEdit = True" by simp
  show ?thesis
    unfolding ce handleAddSubStep_subSteps
    using inv by (rule refIntegrity_append) (simp add: or_empty_simps)
qed

lemma refIntegrity_connect:
  assumes inv: "refIntegrity (subSteps st)" and t: "t \<in> sid ` set (subSteps st)"
  shows "refIntegrity (subSteps (handleEndConnection canEdit st t))"
proof (cases "connectingState st = None \<or> \<not> canEdit \<or>
              map_option fromId (connectingState st) = Some t")
  case True
  then show ?thesis using inv by (simp only: handleEndConnection_noop)
next
  case False
  then obtain cs where cs: "connectingState st = Some cs" and ne: "fromId cs \<noteq> t"
    and ce: "canEdit = True"
    by (cases "connectingState st") auto
  show ?thesis
    unfolding ce handleEndConnection_subSteps [OF cs ne]
    using inv
  proof (rule refIntegrity_mapI)
    fix n :: SubStep
    show "sid (if sid n = fromId cs
               then n\<lparr>nextSubStepIds :=
                        Some (array_from_set (or_empty (nextSubStepIds n) @ [t]))\<rparr>
               else n) = sid n"
      by simp
    show "set (or_empty (nextSubStepIds
            (if sid n = fromId cs
             then n\<lparr>nextSubStepIds :=
                      Some (array_from_set (or_empty (nextSubStepIds n) @ [t]))\<rparr>
             else n)))
          \<subseteq> set (or_empty (nextSubStepIds n)) \<union> sid ` set (subSteps st)"
      using t by (auto simp: set_array_from_set or_empty_simps)
  qed
qed

lemma refIntegrity_disconnect:
  assumes inv: "refIntegrity (subSteps st)"
  shows "refIntegrity (subSteps (handleDeleteConnection canEdit st s t))"
proof (cases canEdit)
  case False
  with inv show ?thesis by (simp add: handleDeleteConnection_def)
next
  case True
  have eq: "subSteps (handleDeleteConnection canEdit st s t) =
     map (\<lambda>ss. if sid ss = s
                then ss\<lparr>nextSubStepIds :=
                         Some (filter (\<lambda>i. i \<noteq> t) (or_empty (nextSubStepIds ss)))\<rparr>
                else ss) (subSteps st)"
    using True by (simp add: handleDeleteConnection_def)
  show ?thesis
    unfolding eq using inv
  proof (rule refIntegrity_mapI)
    fix n :: SubStep
    show "sid (if sid n = s
               then n\<lparr>nextSubStepIds :=
                        Some (filter (\<lambda>i. i \<noteq> t) (or_empty (nextSubStepIds n)))\<rparr>
               else n) = sid n"
      by simp
    show "set (or_empty (nextSubStepIds
            (if sid n = s
             then n\<lparr>nextSubStepIds :=
                      Some (filter (\<lambda>i. i \<noteq> t) (or_empty (nextSubStepIds n)))\<rparr>
             else n)))
          \<subseteq> set (or_empty (nextSubStepIds n)) \<union> sid ` set (subSteps st)"
      by (auto simp: or_empty_simps)
  qed
qed

lemma refIntegrity_layout:
  "refIntegrity (subSteps (handleAutoLayoutSubSteps st)) = refIntegrity (subSteps st)"
proof (rule refIntegrity_cong)
  show "map sid (subSteps (handleAutoLayoutSubSteps st)) = map sid (subSteps st)"
    by (rule nth_equalityI)
       (simp_all add: handleAutoLayoutSubSteps_length handleAutoLayoutSubSteps_nth)
  show "map nextSubStepIds (subSteps (handleAutoLayoutSubSteps st)) =
        map nextSubStepIds (subSteps st)"
    by (rule nth_equalityI)
       (simp_all add: handleAutoLayoutSubSteps_length handleAutoLayoutSubSteps_nth)
qed

lemma handleSubStepDrop_cases:
  "subSteps (handleSubStepDrop canEdit st e) = subSteps st \<or>
   (\<exists>d P. subSteps (handleSubStepDrop canEdit st e) =
      map (\<lambda>ss. if sid ss = d then ss\<lparr>position := Some P\<rparr> else ss) (subSteps st))"
proof (cases "draggedSubStepId st")
  case None
  then show ?thesis by (simp add: handleSubStepDrop_def)
next
  case (Some d)
  note d = this
  show ?thesis
  proof (cases "flowContainer st")
    case None
    with d show ?thesis by (simp add: handleSubStepDrop_def)
  next
    case (Some c)
    show ?thesis
    proof (cases "d = [] \<or> \<not> canEdit")
      case True
      with d Some show ?thesis by (auto simp: handleSubStepDrop_def)
    next
      case False
      then have ce: "canEdit = True" and dn: "d \<noteq> []" by simp_all
      show ?thesis
        unfolding ce handleSubStepDrop_subSteps [OF d dn Some] by blast
    qed
  qed
qed

lemma refIntegrity_drop:
  assumes inv: "refIntegrity (subSteps st)"
  shows "refIntegrity (subSteps (handleSubStepDrop canEdit st e))"
proof -
  have "\<And>d P. refIntegrity
          (map (\<lambda>ss. if sid ss = d then ss\<lparr>position := Some P\<rparr> else ss) (subSteps st))"
    using inv by (rule refIntegrity_mapI) simp_all
  with inv handleSubStepDrop_cases [of canEdit st e] show ?thesis
    by (elim disjE exE) simp_all
qed

lemma findIndex_None_iff: "findIndex p xs = None \<longleftrightarrow> (\<forall>v \<in> set xs. \<not> p v)"
  by (induction xs) simp_all

lemma findIndex_Some_less: "findIndex p xs = Some i \<Longrightarrow> i < length xs"
  by (induction xs arbitrary: i) (auto split: if_splits)

lemma pushActionItem_unresolved:
  "targetSubStepId item \<notin> sid ` set ns \<Longrightarrow> pushActionItem gen item (g, ns) = (g, ns)"
proof -
  assume "targetSubStepId item \<notin> sid ` set ns"
  then have "\<forall>v \<in> set ns. \<not> sid v = targetSubStepId item"
    by (metis image_eqI)
  then have "findIndex (\<lambda>ss. sid ss = targetSubStepId item) ns = None"
    by (simp only: findIndex_None_iff)
  then show ?thesis by (simp add: pushActionItem_def)
qed

lemma update_actionItems_frame:
  "map (\<lambda>n. n\<lparr>actionItems := None\<rparr>) (ns[i := (ns ! i)\<lparr>actionItems := X\<rparr>]) =
   map (\<lambda>n. n\<lparr>actionItems := None\<rparr>) ns"
proof (cases "i < length ns")
  case True
  have "(map (\<lambda>n. n\<lparr>actionItems := None\<rparr>) ns)
          [i := ((ns ! i)\<lparr>actionItems := X\<rparr>)\<lparr>actionItems := None\<rparr>] =
        map (\<lambda>n. n\<lparr>actionItems := None\<rparr>) ns"
    using True by (simp add: list_update_same_conv)
  then show ?thesis by (simp add: map_update)
next
  case False
  then show ?thesis by (simp add: not_less list_update_beyond)
qed



lemma pushActionItem_frame:
  "map (\<lambda>n. n\<lparr>actionItems := None\<rparr>) (snd (pushActionItem gen item (g, ns))) =
   map (\<lambda>n. n\<lparr>actionItems := None\<rparr>) ns"
  by (cases "findIndex (\<lambda>ss. sid ss = targetSubStepId item) ns")
     (simp_all add: pushActionItem_def Let_def case_prod_beta update_actionItems_frame)

lemma frame_sid:
  assumes "map (\<lambda>n. n\<lparr>actionItems := None\<rparr>) xs = map (\<lambda>n. n\<lparr>actionItems := None\<rparr>) ys"
  shows "map sid xs = map sid ys"
proof -
  have "map sid (map (\<lambda>n. n\<lparr>actionItems := None\<rparr>) xs) =
        map sid (map (\<lambda>n. n\<lparr>actionItems := None\<rparr>) ys)"
    using assms by simp
  then show ?thesis by (simp add: comp_def)
qed

lemma frame_nextSubStepIds:
  assumes "map (\<lambda>n. n\<lparr>actionItems := None\<rparr>) xs = map (\<lambda>n. n\<lparr>actionItems := None\<rparr>) ys"
  shows "map nextSubStepIds xs = map nextSubStepIds ys"
proof -
  have "map nextSubStepIds (map (\<lambda>n. n\<lparr>actionItems := None\<rparr>) xs) =
        map nextSubStepIds (map (\<lambda>n. n\<lparr>actionItems := None\<rparr>) ys)"
    using assms by simp
  then show ?thesis by (simp add: comp_def)
qed

lemma fold_pushActionItem_frame:
  "map (\<lambda>n. n\<lparr>actionItems := None\<rparr>) (snd (fold (pushActionItem gen) items (g, ns))) =
   map (\<lambda>n. n\<lparr>actionItems := None\<rparr>) ns"
proof (induction items arbitrary: g ns)
  case Nil
  show ?case by simp
next
  case (Cons item items)
  obtain g' ns' where step: "pushActionItem gen item (g, ns) = (g', ns')"
    by (cases "pushActionItem gen item (g, ns)")
  have "map (\<lambda>n. n\<lparr>actionItems := None\<rparr>) ns' = map (\<lambda>n. n\<lparr>actionItems := None\<rparr>) ns"
    using pushActionItem_frame [of gen item g ns] step by simp
  with Cons.IH [of g' ns'] step show ?case by simp
qed


lemma fold_pushActionItem_filter:
  "fold (pushActionItem gen) items (g, ns) =
   fold (pushActionItem gen)
        (filter (\<lambda>item. targetSubStepId item \<in> sid ` set ns) items) (g, ns)"
proof (induction items arbitrary: g ns)
  case Nil
  show ?case by simp
next
  case (Cons item items)
  show ?case
  proof (cases "targetSubStepId item \<in> sid ` set ns")
    case False
    have "fold (pushActionItem gen) (item # items) (g, ns) =
          fold (pushActionItem gen) items (g, ns)"
      using False by (simp add: pushActionItem_unresolved)
    also have "\<dots> = fold (pushActionItem gen)
        (filter (\<lambda>item. targetSubStepId item \<in> sid ` set ns) items) (g, ns)"
      by (rule Cons.IH)
    also have "\<dots> = fold (pushActionItem gen)
        (filter (\<lambda>item. targetSubStepId item \<in> sid ` set ns) (item # items)) (g, ns)"
      using False by simp
    finally show ?thesis .
  next
    case True
    obtain g' ns' where step: "pushActionItem gen item (g, ns) = (g', ns')"
      by (cases "pushActionItem gen item (g, ns)")
    have "map (\<lambda>n. n\<lparr>actionItems := None\<rparr>) ns' = map (\<lambda>n. n\<lparr>actionItems := None\<rparr>) ns"
      using pushActionItem_frame [of gen item g ns] step by simp
    then have "map sid ns' = map sid ns"
      by (rule frame_sid)
    then have "set (map sid ns') = set (map sid ns)"
      by (rule arg_cong)
    then have img: "sid ` set ns' = sid ` set ns"
      by (simp only: set_map)
    have "fold (pushActionItem gen) (item # items) (g, ns) =
          fold (pushActionItem gen) items (g', ns')"
      by (simp add: step)
    also have "\<dots> = fold (pushActionItem gen)
        (filter (\<lambda>item. targetSubStepId item \<in> sid ` set ns') items) (g', ns')"
      by (rule Cons.IH)
    also have "\<dots> = fold (pushActionItem gen)
        (filter (\<lambda>item. targetSubStepId item \<in> sid ` set ns) items) (g', ns')"
      by (simp only: img)
    also have "\<dots> = fold (pushActionItem gen)
        (filter (\<lambda>item. targetSubStepId item \<in> sid ` set ns) (item # items)) (g, ns)"
      using True by (simp add: step)
    finally show ?thesis .
  qed
qed

lemma pushProposal_eq:
  "pushProposal gen (i, p) (g, ns) =
     (snd (gen g ''substep''),
      ns @ [\<lparr>sid = fst (gen g ''substep''), stext = p_title p,
              snotes = Some (p_description p),
              position = Some \<lparr>px = 50 + (real (length ns) + real i) * 220, py = 50\<rparr>,
              nextSubStepIds = None, actionItems = Some [], status = None\<rparr>])"
  by (simp add: pushProposal_def Let_def case_prod_beta)

lemma fold_pushProposal:
  "\<exists>news. snd (fold (pushProposal gen) (List.enumerate k ps) (g, ns)) = ns @ news \<and>
      length news = length ps \<and>
      (\<forall>j < length ps.
         stext (news ! j) = p_title (ps ! j) \<and>
         snotes (news ! j) = Some (p_description (ps ! j)) \<and>
         actionItems (news ! j) = Some [] \<and>
         nextSubStepIds (news ! j) = None \<and>
         status (news ! j) = None \<and>
         position (news ! j) =
           Some \<lparr>px = 50 + (real (length ns + j) + real (k + j)) * 220, py = 50\<rparr>)"
proof (induction ps arbitrary: k g ns)
  case Nil
  show ?case by simp
next
  case (Cons p ps)
  let ?n = "\<lparr>sid = fst (gen g ''substep''), stext = p_title p,
              snotes = Some (p_description p),
              position = Some \<lparr>px = 50 + (real (length ns) + real k) * 220, py = 50\<rparr>,
              nextSubStepIds = None, actionItems = Some [], status = None\<rparr>"
  from Cons.IH [of "Suc k" "snd (gen g ''substep'')" "ns @ [?n]"]
  obtain news where
    eq: "snd (fold (pushProposal gen) (List.enumerate (Suc k) ps)
                (snd (gen g ''substep''), ns @ [?n])) = (ns @ [?n]) @ news"
    and len: "length news = length ps"
    and each: "\<forall>j < length ps.
         stext (news ! j) = p_title (ps ! j) \<and>
         snotes (news ! j) = Some (p_description (ps ! j)) \<and>
         actionItems (news ! j) = Some [] \<and>
         nextSubStepIds (news ! j) = None \<and>
         status (news ! j) = None \<and>
         position (news ! j) =
           Some \<lparr>px = 50 + (real (length (ns @ [?n]) + j) + real (Suc k + j)) * 220, py = 50\<rparr>"
    by (elim exE conjE) (rule that)
  have 1: "snd (fold (pushProposal gen) (List.enumerate k (p # ps)) (g, ns)) = ns @ (?n # news)"
    using eq by (simp add: pushProposal_eq)
  have 2: "length (?n # news) = length (p # ps)"
    using len by simp
  have 3: "\<forall>j < length (p # ps).
         stext ((?n # news) ! j) = p_title ((p # ps) ! j) \<and>
         snotes ((?n # news) ! j) = Some (p_description ((p # ps) ! j)) \<and>
         actionItems ((?n # news) ! j) = Some [] \<and>
         nextSubStepIds ((?n # news) ! j) = None \<and>
         status ((?n # news) ! j) = None \<and>
         position ((?n # news) ! j) =
           Some \<lparr>px = 50 + (real (length ns + j) + real (k + j)) * 220, py = 50\<rparr>"
  proof (intro allI impI)
    fix j
    assume j: "j < length (p # ps)"
    show "stext ((?n # news) ! j) = p_title ((p # ps) ! j) \<and>
         snotes ((?n # news) ! j) = Some (p_description ((p # ps) ! j)) \<and>
         actionItems ((?n # news) ! j) = Some [] \<and>
         nextSubStepIds ((?n # news) ! j) = None \<and>
         status ((?n # news) ! j) = None \<and>
         position ((?n # news) ! j) =
           Some \<lparr>px = 50 + (real (length ns + j) + real (k + j)) * 220, py = 50\<rparr>"
    proof (cases j)
      case 0
      then show ?thesis by simp
    next
      case (Suc j')
      with j have "j' < length ps" by simp
      with each Suc show ?thesis by simp
    qed
  qed
  show ?case
    apply (rule exI [of _ "?n # news"])
    apply (rule conjI, rule 1)
    apply (rule conjI, rule 2)
    apply (rule 3)
    done
qed



lemma handleConfirmProposals_subSteps:
  "subSteps (snd (handleConfirmProposals gen g st adds)) =
     snd (fold (pushActionItem gen) (newActionItems adds)
            (fold (pushProposal gen) (List.enumerate 0 (newSubSteps adds)) (g, subSteps st)))"
  by (simp add: handleConfirmProposals_def case_prod_beta)

lemma refIntegrity_merge:
  assumes inv: "refIntegrity (subSteps st)"
  shows "refIntegrity (subSteps (snd (handleConfirmProposals gen g st adds)))"
proof -
  obtain g1 appended where
    app: "fold (pushProposal gen) (List.enumerate 0 (newSubSteps adds)) (g, subSteps st) =
            (g1, appended)"
    by (cases "fold (pushProposal gen) (List.enumerate 0 (newSubSteps adds)) (g, subSteps st)")
  from fold_pushProposal [of gen 0 "newSubSteps adds" g "subSteps st"] app
  obtain news where news: "appended = subSteps st @ news"
    and len: "length news = length (newSubSteps adds)"
    and each: "\<forall>j < length (newSubSteps adds). nextSubStepIds (news ! j) = None"
    by auto
  have "\<And>n. n \<in> set news \<Longrightarrow> or_empty (nextSubStepIds n) = []"
  proof -
    fix n :: SubStep
    assume "n \<in> set news"
    then obtain j where "j < length news" and "n = news ! j"
      by (auto simp: in_set_conv_nth)
    with len each show "or_empty (nextSubStepIds n) = []"
      by (simp add: or_empty_simps)
  qed
  with inv have 1: "refIntegrity appended"
    unfolding news by (rule refIntegrity_append)
  have frame: "map (\<lambda>n. n\<lparr>actionItems := None\<rparr>)
                 (snd (fold (pushActionItem gen) (newActionItems adds) (g1, appended))) =
               map (\<lambda>n. n\<lparr>actionItems := None\<rparr>) appended"
    by (rule fold_pushActionItem_frame)
  have "refIntegrity (snd (fold (pushActionItem gen) (newActionItems adds) (g1, appended))) =
        refIntegrity appended"
    by (rule refIntegrity_cong) (rule frame_sid [OF frame], rule frame_nextSubStepIds [OF frame])
  with 1 show ?thesis
    by (simp add: handleConfirmProposals_subSteps app)
qed


text \<open>
  C2, as the code has it. Starting from a node set in which every id in every
  \<^verbatim>\<open>nextSubStepIds\<close> is the id of a present node, the node set after adding a node,
  removing a node, disconnecting, auto-layout, dropping a dragged card or merging proposals
  has the same property, for all arguments; after a connect it has the property when the
  target id is the id of a present node.
\<close>

theorem referential_integrity_preserved:
  "refIntegrity (subSteps st) \<longrightarrow>
     refIntegrity (subSteps (snd (handleAddSubStep canEdit gen g st))) \<and>
     refIntegrity (subSteps (handleRemoveSubStep canEdit confirmed st i)) \<and>
     (t \<in> sid ` set (subSteps st) \<longrightarrow>
        refIntegrity (subSteps (handleEndConnection canEdit st t))) \<and>
     refIntegrity (subSteps (handleDeleteConnection canEdit st s t)) \<and>
     refIntegrity (subSteps (handleAutoLayoutSubSteps st)) \<and>
     refIntegrity (subSteps (handleSubStepDrop canEdit st e)) \<and>
     refIntegrity (subSteps (snd (handleConfirmProposals gen g st adds)))"
proof (rule impI)
  assume inv: "refIntegrity (subSteps st)"
  have p3: "t \<in> sid ` set (subSteps st) \<longrightarrow>
        refIntegrity (subSteps (handleEndConnection canEdit st t))"
    using inv by (rule impI [OF refIntegrity_connect])
  show "refIntegrity (subSteps (snd (handleAddSubStep canEdit gen g st))) \<and>
     refIntegrity (subSteps (handleRemoveSubStep canEdit confirmed st i)) \<and>
     (t \<in> sid ` set (subSteps st) \<longrightarrow>
        refIntegrity (subSteps (handleEndConnection canEdit st t))) \<and>
     refIntegrity (subSteps (handleDeleteConnection canEdit st s t)) \<and>
     refIntegrity (subSteps (handleAutoLayoutSubSteps st)) \<and>
     refIntegrity (subSteps (handleSubStepDrop canEdit st e)) \<and>
     refIntegrity (subSteps (snd (handleConfirmProposals gen g st adds)))"
    apply (rule conjI, rule refIntegrity_add [OF inv])
    apply (rule conjI, rule refIntegrity_remove [OF inv])
    apply (rule conjI, rule p3)
    apply (rule conjI, rule refIntegrity_disconnect [OF inv])
    apply (rule conjI, simp only: refIntegrity_layout inv)
    apply (rule conjI, rule refIntegrity_drop [OF inv])
    apply (rule refIntegrity_merge [OF inv])
    done
qed

text \<open>
  C2, witness: the node set A \<rightarrow> B, B has no dangling edge, and none of the seven
  operations gives it one.
\<close>

theorem referential_integrity_preserved_witness:
  "refIntegrity (subSteps ((exampleState [exampleSubStep ''A'' None (Some [''B'']), exampleSubStep ''B'' None None])
        \<lparr>connectingState := Some \<lparr>fromId = ''B'', fromPos = \<lparr>px = 0, py = 0\<rparr>\<rparr>,
         draggedSubStepId := Some ''A''\<rparr>)) \<and>
   ''A'' \<in> sid ` set (subSteps ((exampleState [exampleSubStep ''A'' None (Some [''B'']), exampleSubStep ''B'' None None])
        \<lparr>connectingState := Some \<lparr>fromId = ''B'', fromPos = \<lparr>px = 0, py = 0\<rparr>\<rparr>,
         draggedSubStepId := Some ''A''\<rparr>)) \<and>
   refIntegrity (subSteps (snd (handleAddSubStep True exampleIdGen 0 ((exampleState [exampleSubStep ''A'' None (Some [''B'']), exampleSubStep ''B'' None None])
        \<lparr>connectingState := Some \<lparr>fromId = ''B'', fromPos = \<lparr>px = 0, py = 0\<rparr>\<rparr>,
         draggedSubStepId := Some ''A''\<rparr>)))) \<and>
   refIntegrity (subSteps (handleRemoveSubStep True True ((exampleState [exampleSubStep ''A'' None (Some [''B'']), exampleSubStep ''B'' None None])
        \<lparr>connectingState := Some \<lparr>fromId = ''B'', fromPos = \<lparr>px = 0, py = 0\<rparr>\<rparr>,
         draggedSubStepId := Some ''A''\<rparr>) ''B'')) \<and>
   refIntegrity (subSteps (handleEndConnection True ((exampleState [exampleSubStep ''A'' None (Some [''B'']), exampleSubStep ''B'' None None])
        \<lparr>connectingState := Some \<lparr>fromId = ''B'', fromPos = \<lparr>px = 0, py = 0\<rparr>\<rparr>,
         draggedSubStepId := Some ''A''\<rparr>) ''A'')) \<and>
   refIntegrity (subSteps (handleDeleteConnection True ((exampleState [exampleSubStep ''A'' None (Some [''B'']), exampleSubStep ''B'' None None])
        \<lparr>connectingState := Some \<lparr>fromId = ''B'', fromPos = \<lparr>px = 0, py = 0\<rparr>\<rparr>,
         draggedSubStepId := Some ''A''\<rparr>) ''A'' ''A'')) \<and>
   refIntegrity (subSteps (handleAutoLayoutSubSteps ((exampleState [exampleSubStep ''A'' None (Some [''B'']), exampleSubStep ''B'' None None])
        \<lparr>connectingState := Some \<lparr>fromId = ''B'', fromPos = \<lparr>px = 0, py = 0\<rparr>\<rparr>,
         draggedSubStepId := Some ''A''\<rparr>))) \<and>
   refIntegrity (subSteps (handleSubStepDrop True ((exampleState [exampleSubStep ''A'' None (Some [''B'']), exampleSubStep ''B'' None None])
        \<lparr>connectingState := Some \<lparr>fromId = ''B'', fromPos = \<lparr>px = 0, py = 0\<rparr>\<rparr>,
         draggedSubStepId := Some ''A''\<rparr>) \<lparr>clientX = 9999, clientY = 9999\<rparr>)) \<and>
   refIntegrity (subSteps (snd (handleConfirmProposals exampleIdGen 0 ((exampleState [exampleSubStep ''A'' None (Some [''B'']), exampleSubStep ''B'' None None])
        \<lparr>connectingState := Some \<lparr>fromId = ''B'', fromPos = \<lparr>px = 0, py = 0\<rparr>\<rparr>,
         draggedSubStepId := Some ''A''\<rparr>)
      \<lparr>newSubSteps = [\<lparr>p_title = ''T'', p_description = ''D''\<rparr>],
          newActionItems = [\<lparr>targetSubStepId = ''A'', a_title = ''x''\<rparr>]\<rparr>)))"
proof -
  have h: "refIntegrity (subSteps ((exampleState [exampleSubStep ''A'' None (Some [''B'']), exampleSubStep ''B'' None None])
        \<lparr>connectingState := Some \<lparr>fromId = ''B'', fromPos = \<lparr>px = 0, py = 0\<rparr>\<rparr>,
         draggedSubStepId := Some ''A''\<rparr>))"
    by (simp add: refIntegrity_def exampleState_def exampleSubStep_def or_empty_simps)
  have m: "''A'' \<in> sid ` set (subSteps ((exampleState [exampleSubStep ''A'' None (Some [''B'']), exampleSubStep ''B'' None None])
        \<lparr>connectingState := Some \<lparr>fromId = ''B'', fromPos = \<lparr>px = 0, py = 0\<rparr>\<rparr>,
         draggedSubStepId := Some ''A''\<rparr>))"
    by (simp add: exampleState_def exampleSubStep_def)
  from referential_integrity_preserved [where st = "((exampleState [exampleSubStep ''A'' None (Some [''B'']), exampleSubStep ''B'' None None])
        \<lparr>connectingState := Some \<lparr>fromId = ''B'', fromPos = \<lparr>px = 0, py = 0\<rparr>\<rparr>,
         draggedSubStepId := Some ''A''\<rparr>)" and canEdit = True and gen = exampleIdGen and g = 0
      and confirmed = True and i = "''B''" and t = "''A''" and s = "''A''"
      and e = "\<lparr>clientX = 9999, clientY = 9999\<rparr>"
      and adds = "\<lparr>newSubSteps = [\<lparr>p_title = ''T'', p_description = ''D''\<rparr>],
          newActionItems = [\<lparr>targetSubStepId = ''A'', a_title = ''x''\<rparr>]\<rparr>"] h m
  show ?thesis by blast
qed

text \<open>
  C2, counterexample to the claim as stated: the node set with the single node A has no
  dangling edge; ending a connect gesture from A on the absent id \<open>ghost\<close> leaves A
  with an edge to no node.
\<close>

theorem connect_dangling_counterexample:
  "refIntegrity (subSteps ((exampleState [exampleSubStep ''A'' None None])
        \<lparr>connectingState := Some \<lparr>fromId = ''A'', fromPos = \<lparr>px = 0, py = 0\<rparr>\<rparr>\<rparr>)) \<and>
   ''ghost'' \<notin> sid ` set (subSteps ((exampleState [exampleSubStep ''A'' None None])
        \<lparr>connectingState := Some \<lparr>fromId = ''A'', fromPos = \<lparr>px = 0, py = 0\<rparr>\<rparr>\<rparr>)) \<and>
   \<not> refIntegrity (subSteps (handleEndConnection True ((exampleState [exampleSubStep ''A'' None None])
        \<lparr>connectingState := Some \<lparr>fromId = ''A'', fromPos = \<lparr>px = 0, py = 0\<rparr>\<rparr>\<rparr>) ''ghost''))"
  by (simp add: refIntegrity_def handleEndConnection_def exampleState_def exampleSubStep_def
        or_empty_simps array_from_set_def)

section \<open>Connectors\<close>

lemma or_zero_simps:
  "or_zero None = 0" "or_zero (Some r) = r"
  by (simp_all add: or_zero_def)

lemma pushConnector_append:
  "pushConnector ns s sp tid acc = acc @ pushConnector ns s sp tid []"
  by (simp add: pushConnector_def Let_def split: option.splits)

lemma fold_pushConnector:
  "fold (pushConnector ns s sp) ids acc =
     acc @ concat (map (\<lambda>tid. pushConnector ns s sp tid []) ids)"
proof (induction ids arbitrary: acc)
  case Nil
  show ?case by simp
next
  case (Cons tid ids)
  have "fold (pushConnector ns s sp) (tid # ids) acc =
        fold (pushConnector ns s sp) ids (pushConnector ns s sp tid acc)"
    by simp
  also have "\<dots> = pushConnector ns s sp tid acc @
                    concat (map (\<lambda>tid. pushConnector ns s sp tid []) ids)"
    by (rule Cons.IH)
  also have "\<dots> = (acc @ pushConnector ns s sp tid []) @
                    concat (map (\<lambda>tid. pushConnector ns s sp tid []) ids)"
    by (subst pushConnector_append) (rule refl)
  finally show ?case by simp
qed

lemma connectorsOf_eq:
  "connectorsOf ns s acc =
     acc @ concat (map (\<lambda>tid. pushConnector ns s
                               \<lparr>px = or_zero (map_option px (position s)) + 200,
                                py = or_zero (map_option py (position s)) + 60\<rparr> tid [])
                       (or_empty (nextSubStepIds s)))"
proof (cases "nextSubStepIds s")
  case None
  then show ?thesis by (simp add: connectorsOf_def or_empty_simps)
next
  case (Some ids)
  show ?thesis
  proof (cases ids)
    case Nil
    with Some show ?thesis by (simp add: connectorsOf_def or_empty_simps)
  next
    case (Cons a list)
    have "connectorsOf ns s acc =
            fold (pushConnector ns s
                    \<lparr>px = or_zero (map_option px (position s)) + 200,
                     py = or_zero (map_option py (position s)) + 60\<rparr>) (a # list) acc"
      using Some Cons by (simp add: connectorsOf_def Let_def CARD_WIDTH_def CARD_HEIGHT_def)
    also have "\<dots> = acc @ concat (map (\<lambda>tid. pushConnector ns s
                               \<lparr>px = or_zero (map_option px (position s)) + 200,
                                py = or_zero (map_option py (position s)) + 60\<rparr> tid [])
                       (a # list))"
      by (rule fold_pushConnector)
    finally show ?thesis
      using Some Cons by (simp add: or_empty_simps)
  qed
qed

lemma fold_connectorsOf:
  "fold (connectorsOf ns) xs acc = acc @ concat (map (\<lambda>s. connectorsOf ns s []) xs)"
proof (induction xs arbitrary: acc)
  case Nil
  show ?case by simp
next
  case (Cons s xs)
  have "fold (connectorsOf ns) (s # xs) acc = fold (connectorsOf ns) xs (connectorsOf ns s acc)"
    by simp
  also have "\<dots> = connectorsOf ns s acc @ concat (map (\<lambda>s. connectorsOf ns s []) xs)"
    by (rule Cons.IH)
  also have "connectorsOf ns s acc = acc @ connectorsOf ns s []"
    by (simp add: connectorsOf_eq)
  finally show ?case by simp
qed

lemma calculateConnectors_eq:
  assumes "flowContainer st \<noteq> None" and "subStepCardRefs st \<noteq> []"
  shows "connectors (calculateConnectors st) =
           concat (map (\<lambda>s. connectorsOf (subSteps st) s []) (subSteps st))"
proof -
  from assms(1) obtain c where "flowContainer st = Some c"
    by (cases "flowContainer st") simp_all
  then show ?thesis
    using assms(2) by (simp add: calculateConnectors_def fold_connectorsOf)
qed

lemma in_pushConnector:
  "c \<in> set (pushConnector ns s sp tid []) \<longleftrightarrow>
     (\<exists>t. find (\<lambda>ss. sid ss = tid) ns = Some t \<and>
          c = \<lparr>conn_id = ''conn-'' @ sid s @ ''-'' @ tid,
               conn_from = sp,
               conn_to = \<lparr>px = or_zero (map_option px (position t)),
                          py = or_zero (map_option py (position t)) + 60\<rparr>,
               sourceId = sid s, targetId = tid\<rparr>)"
  by (cases "find (\<lambda>ss. sid ss = tid) ns")
     (simp_all add: pushConnector_def Let_def CARD_HEIGHT_def)

lemma in_connectorsOf:
  "c \<in> set (connectorsOf ns s []) \<longleftrightarrow>
     (\<exists>tid \<in> set (or_empty (nextSubStepIds s)).
        \<exists>t. find (\<lambda>ss. sid ss = tid) ns = Some t \<and>
          c = \<lparr>conn_id = ''conn-'' @ sid s @ ''-'' @ tid,
               conn_from = \<lparr>px = or_zero (map_option px (position s)) + 200,
                            py = or_zero (map_option py (position s)) + 60\<rparr>,
               conn_to = \<lparr>px = or_zero (map_option px (position t)),
                          py = or_zero (map_option py (position t)) + 60\<rparr>,
               sourceId = sid s, targetId = tid\<rparr>)"
  by (simp add: connectorsOf_eq in_pushConnector)

lemma in_calculateConnectors:
  assumes "flowContainer st \<noteq> None" and "subStepCardRefs st \<noteq> []"
  shows "c \<in> set (connectors (calculateConnectors st)) \<longleftrightarrow>
     (\<exists>s \<in> set (subSteps st). \<exists>tid \<in> set (or_empty (nextSubStepIds s)).
        \<exists>t. find (\<lambda>ss. sid ss = tid) (subSteps st) = Some t \<and>
          c = \<lparr>conn_id = ''conn-'' @ sid s @ ''-'' @ tid,
               conn_from = \<lparr>px = or_zero (map_option px (position s)) + 200,
                            py = or_zero (map_option py (position s)) + 60\<rparr>,
               conn_to = \<lparr>px = or_zero (map_option px (position t)),
                          py = or_zero (map_option py (position t)) + 60\<rparr>,
               sourceId = sid s, targetId = tid\<rparr>)"
  by (simp add: calculateConnectors_eq [OF assms] in_connectorsOf)


lemma calculateConnectors_example_eval:
  "connectors (calculateConnectors (exampleState ns)) =
     (if ns = [] then [] else fold (connectorsOf ns) ns [])"
  by (simp add: calculateConnectors_def exampleState_def)

text \<open>
  The connectors that \<^verbatim>\<open>handleAutoLayoutSubSteps\<close> sets are those of the sub-steps
  before the layout: for A at (0, 0) and B at (300, 0) with the edge A \<rightarrow> B the first
  call leaves the connector of the old positions, the second that of the grid positions.
\<close>

lemma handleAutoLayoutSubSteps_connectors:
  "connectors (handleAutoLayoutSubSteps st) = connectors (calculateConnectors st)"
  by (simp add: handleAutoLayoutSubSteps_def Let_def)

lemma handleAutoLayoutSubSteps_connectors_lag:
  "connectors (handleAutoLayoutSubSteps (exampleState
          [exampleSubStep ''A'' (Some \<lparr>px = 0, py = 0\<rparr>) (Some [''B'']),
           exampleSubStep ''B'' (Some \<lparr>px = 300, py = 0\<rparr>) None])) =
     [\<lparr>conn_id = ''conn-A-B'', conn_from = \<lparr>px = 200, py = 60\<rparr>,
       conn_to = \<lparr>px = 300, py = 60\<rparr>, sourceId = ''A'', targetId = ''B''\<rparr>] \<and>
   connectors (handleAutoLayoutSubSteps (handleAutoLayoutSubSteps (exampleState
          [exampleSubStep ''A'' (Some \<lparr>px = 0, py = 0\<rparr>) (Some [''B'']),
           exampleSubStep ''B'' (Some \<lparr>px = 300, py = 0\<rparr>) None]))) =
     [\<lparr>conn_id = ''conn-A-B'', conn_from = \<lparr>px = 220, py = 80\<rparr>,
       conn_to = \<lparr>px = 270, py = 80\<rparr>, sourceId = ''A'', targetId = ''B''\<rparr>]"
  by (simp add: handleAutoLayoutSubSteps_def Let_def calculateConnectors_def
        exampleState_def exampleSubStep_def connectorsOf_def pushConnector_def
        or_zero_simps floor_third CARD_WIDTH_def CARD_HEIGHT_def PADDING_def
        HORIZONTAL_SPACING_def VERTICAL_SPACING_def)

text \<open>
  C6. With the flow container mounted and card refs present, the connectors computed are
  exactly those of the edges \<open>s \<rightarrow> tid\<close> whose target id resolves to a node \<open>t\<close>
  (the first node with that id), each running from the right-centre of the source card to
  the left-centre of the target card; for nodes with a position this is
  from \<open>(s.x + CARD_WIDTH, s.y + CARD_HEIGHT / 2)\<close> to \<open>(t.x, t.y + CARD_HEIGHT / 2)\<close>,
  with \<open>CARD_WIDTH = 200\<close> and \<open>CARD_HEIGHT = 120\<close>. For A at (0, 0) and B at (300, 0)
  with the single edge A \<rightarrow> B the result is the one connector from (200, 60) to (300, 60).
\<close>

theorem connector_geometry:
  "(flowContainer st \<noteq> None \<and> subStepCardRefs st \<noteq> [] \<longrightarrow>
      (\<forall>c. c \<in> set (connectors (calculateConnectors st)) \<longleftrightarrow>
        (\<exists>s \<in> set (subSteps st). \<exists>tid \<in> set (or_empty (nextSubStepIds s)).
           \<exists>t. find (\<lambda>ss. sid ss = tid) (subSteps st) = Some t \<and>
             c = \<lparr>conn_id = ''conn-'' @ sid s @ ''-'' @ tid,
               conn_from = \<lparr>px = or_zero (map_option px (position s)) + 200, py = or_zero (map_option py (position s)) + 60\<rparr>,
               conn_to = \<lparr>px = or_zero (map_option px (position t)), py = or_zero (map_option py (position t)) + 60\<rparr>,
               sourceId = sid s, targetId = tid\<rparr>)) \<and>
      (\<forall>s \<in> set (subSteps st). \<forall>tid \<in> set (or_empty (nextSubStepIds s)). \<forall>t ps pt.
        find (\<lambda>ss. sid ss = tid) (subSteps st) = Some t \<and>
        position s = Some ps \<and> position t = Some pt \<longrightarrow>
          \<lparr>conn_id = ''conn-'' @ sid s @ ''-'' @ tid,
               conn_from = \<lparr>px = px ps + CARD_WIDTH, py = py ps + CARD_HEIGHT / 2\<rparr>,
               conn_to = \<lparr>px = px pt, py = py pt + CARD_HEIGHT / 2\<rparr>,
               sourceId = sid s, targetId = tid\<rparr>
          \<in> set (connectors (calculateConnectors st)))) \<and>
   CARD_WIDTH = 200 \<and> CARD_HEIGHT = 120 \<and>
   connectors (calculateConnectors (exampleState
        [exampleSubStep ''A'' (Some \<lparr>px = 0, py = 0\<rparr>) (Some [''B'']),
         exampleSubStep ''B'' (Some \<lparr>px = 300, py = 0\<rparr>) None])) =
     [\<lparr>conn_id = ''conn-A-B'', conn_from = \<lparr>px = 200, py = 60\<rparr>,
       conn_to = \<lparr>px = 300, py = 60\<rparr>, sourceId = ''A'', targetId = ''B''\<rparr>]"
proof -
  have p1: "flowContainer st \<noteq> None \<and> subStepCardRefs st \<noteq> [] \<longrightarrow>
      (\<forall>c. c \<in> set (connectors (calculateConnectors st)) \<longleftrightarrow>
        (\<exists>s \<in> set (subSteps st). \<exists>tid \<in> set (or_empty (nextSubStepIds s)).
           \<exists>t. find (\<lambda>ss. sid ss = tid) (subSteps st) = Some t \<and>
             c = \<lparr>conn_id = ''conn-'' @ sid s @ ''-'' @ tid,
               conn_from = \<lparr>px = or_zero (map_option px (position s)) + 200, py = or_zero (map_option py (position s)) + 60\<rparr>,
               conn_to = \<lparr>px = or_zero (map_option px (position t)), py = or_zero (map_option py (position t)) + 60\<rparr>,
               sourceId = sid s, targetId = tid\<rparr>)) \<and>
      (\<forall>s \<in> set (subSteps st). \<forall>tid \<in> set (or_empty (nextSubStepIds s)). \<forall>t ps pt.
        find (\<lambda>ss. sid ss = tid) (subSteps st) = Some t \<and>
        position s = Some ps \<and> position t = Some pt \<longrightarrow>
          \<lparr>conn_id = ''conn-'' @ sid s @ ''-'' @ tid,
               conn_from = \<lparr>px = px ps + CARD_WIDTH, py = py ps + CARD_HEIGHT / 2\<rparr>,
               conn_to = \<lparr>px = px pt, py = py pt + CARD_HEIGHT / 2\<rparr>,
               sourceId = sid s, targetId = tid\<rparr>
          \<in> set (connectors (calculateConnectors st)))"
  proof (rule impI, rule conjI)
    assume a: "flowContainer st \<noteq> None \<and> subStepCardRefs st \<noteq> []"
    then have a1: "flowContainer st \<noteq> None" and a2: "subStepCardRefs st \<noteq> []"
      by simp_all
    show "(\<forall>c. c \<in> set (connectors (calculateConnectors st)) \<longleftrightarrow>
        (\<exists>s \<in> set (subSteps st). \<exists>tid \<in> set (or_empty (nextSubStepIds s)).
           \<exists>t. find (\<lambda>ss. sid ss = tid) (subSteps st) = Some t \<and>
             c = \<lparr>conn_id = ''conn-'' @ sid s @ ''-'' @ tid,
               conn_from = \<lparr>px = or_zero (map_option px (position s)) + 200, py = or_zero (map_option py (position s)) + 60\<rparr>,
               conn_to = \<lparr>px = or_zero (map_option px (position t)), py = or_zero (map_option py (position t)) + 60\<rparr>,
               sourceId = sid s, targetId = tid\<rparr>))"
      by (rule allI) (rule in_calculateConnectors [OF a1 a2])
    show "(\<forall>s \<in> set (subSteps st). \<forall>tid \<in> set (or_empty (nextSubStepIds s)). \<forall>t ps pt.
        find (\<lambda>ss. sid ss = tid) (subSteps st) = Some t \<and>
        position s = Some ps \<and> position t = Some pt \<longrightarrow>
          \<lparr>conn_id = ''conn-'' @ sid s @ ''-'' @ tid,
               conn_from = \<lparr>px = px ps + CARD_WIDTH, py = py ps + CARD_HEIGHT / 2\<rparr>,
               conn_to = \<lparr>px = px pt, py = py pt + CARD_HEIGHT / 2\<rparr>,
               sourceId = sid s, targetId = tid\<rparr>
          \<in> set (connectors (calculateConnectors st)))"
    proof (intro ballI allI impI)
      fix s :: SubStep and tid t ps pt
      assume s: "s \<in> set (subSteps st)" and tid: "tid \<in> set (or_empty (nextSubStepIds s))"
        and h: "find (\<lambda>ss. sid ss = tid) (subSteps st) = Some t \<and>
                position s = Some ps \<and> position t = Some pt"
      have "\<lparr>conn_id = ''conn-'' @ sid s @ ''-'' @ tid,
               conn_from = \<lparr>px = px ps + CARD_WIDTH, py = py ps + CARD_HEIGHT / 2\<rparr>,
               conn_to = \<lparr>px = px pt, py = py pt + CARD_HEIGHT / 2\<rparr>,
               sourceId = sid s, targetId = tid\<rparr> =
            \<lparr>conn_id = ''conn-'' @ sid s @ ''-'' @ tid,
               conn_from = \<lparr>px = or_zero (map_option px (position s)) + 200, py = or_zero (map_option py (position s)) + 60\<rparr>,
               conn_to = \<lparr>px = or_zero (map_option px (position t)), py = or_zero (map_option py (position t)) + 60\<rparr>,
               sourceId = sid s, targetId = tid\<rparr>"
        using h by (simp add: or_zero_simps CARD_WIDTH_def CARD_HEIGHT_def)
      moreover have "\<lparr>conn_id = ''conn-'' @ sid s @ ''-'' @ tid,
               conn_from = \<lparr>px = or_zero (map_option px (position s)) + 200, py = or_zero (map_option py (position s)) + 60\<rparr>,
               conn_to = \<lparr>px = or_zero (map_option px (position t)), py = or_zero (map_option py (position t)) + 60\<rparr>,
               sourceId = sid s, targetId = tid\<rparr>
            \<in> set (connectors (calculateConnectors st))"
        unfolding in_calculateConnectors [OF a1 a2] using s tid h by blast
      ultimately show "\<lparr>conn_id = ''conn-'' @ sid s @ ''-'' @ tid,
               conn_from = \<lparr>px = px ps + CARD_WIDTH, py = py ps + CARD_HEIGHT / 2\<rparr>,
               conn_to = \<lparr>px = px pt, py = py pt + CARD_HEIGHT / 2\<rparr>,
               sourceId = sid s, targetId = tid\<rparr>
          \<in> set (connectors (calculateConnectors st))"
        by simp
    qed
  qed
  have p4: "connectors (calculateConnectors (exampleState
        [exampleSubStep ''A'' (Some \<lparr>px = 0, py = 0\<rparr>) (Some [''B'']),
         exampleSubStep ''B'' (Some \<lparr>px = 300, py = 0\<rparr>) None])) =
     [\<lparr>conn_id = ''conn-A-B'', conn_from = \<lparr>px = 200, py = 60\<rparr>,
       conn_to = \<lparr>px = 300, py = 60\<rparr>, sourceId = ''A'', targetId = ''B''\<rparr>]"
    by (simp add: calculateConnectors_example_eval connectorsOf_def pushConnector_def
          exampleSubStep_def or_zero_simps Let_def CARD_WIDTH_def CARD_HEIGHT_def)
  show ?thesis
    apply (rule conjI, rule p1)
    apply (rule conjI, rule CARD_WIDTH_def)
    apply (rule conjI, rule CARD_HEIGHT_def)
    apply (rule p4)
    done
qed


text \<open>
  C6, witness: on the mounted example canvas the edge A \<rightarrow> B has its connector.
\<close>

theorem connector_geometry_witness:
  "flowContainer (exampleState
        [exampleSubStep ''A'' (Some \<lparr>px = 0, py = 0\<rparr>) (Some [''B'']),
         exampleSubStep ''B'' (Some \<lparr>px = 300, py = 0\<rparr>) None]) \<noteq> None \<and> subStepCardRefs (exampleState
        [exampleSubStep ''A'' (Some \<lparr>px = 0, py = 0\<rparr>) (Some [''B'']),
         exampleSubStep ''B'' (Some \<lparr>px = 300, py = 0\<rparr>) None]) \<noteq> [] \<and>
   \<lparr>conn_id = ''conn-A-B'', conn_from = \<lparr>px = 200, py = 60\<rparr>,
    conn_to = \<lparr>px = 300, py = 60\<rparr>, sourceId = ''A'', targetId = ''B''\<rparr>
     \<in> set (connectors (calculateConnectors (exampleState
        [exampleSubStep ''A'' (Some \<lparr>px = 0, py = 0\<rparr>) (Some [''B'']),
         exampleSubStep ''B'' (Some \<lparr>px = 300, py = 0\<rparr>) None])))"
  using connector_geometry [of "(exampleState
        [exampleSubStep ''A'' (Some \<lparr>px = 0, py = 0\<rparr>) (Some [''B'']),
         exampleSubStep ''B'' (Some \<lparr>px = 300, py = 0\<rparr>) None])"]
  by (simp add: exampleState_def exampleSubStep_def or_empty_simps or_zero_simps)

lemma find_Some_sid:
  "find (\<lambda>ss. sid ss = tid) ns = Some t \<Longrightarrow> tid \<in> sid ` set ns"
  by (induction ns) (auto split: if_splits)

lemma connectors_resolved_aux:
  assumes c: "c \<in> set (connectors (calculateConnectors st))"
  shows "conn_id c = ''conn-'' @ sourceId c @ ''-'' @ targetId c \<and>
         targetId c \<in> sid ` set (subSteps st) \<and>
         sourceId c \<in> sid ` set (subSteps st)"
proof (cases "flowContainer st \<noteq> None \<and> subStepCardRefs st \<noteq> []")
  case False
  then have "connectors (calculateConnectors st) = []"
    by (auto simp: calculateConnectors_def)
  with c show ?thesis by simp
next
  case True
  then have a1: "flowContainer st \<noteq> None" and a2: "subStepCardRefs st \<noteq> []"
    by simp_all
  from c obtain s tid t where s: "s \<in> set (subSteps st)"
    and f: "find (\<lambda>ss. sid ss = tid) (subSteps st) = Some t"
    and ceq: "c = \<lparr>conn_id = ''conn-'' @ sid s @ ''-'' @ tid,
               conn_from = \<lparr>px = or_zero (map_option px (position s)) + 200,
                            py = or_zero (map_option py (position s)) + 60\<rparr>,
               conn_to = \<lparr>px = or_zero (map_option px (position t)),
                          py = or_zero (map_option py (position t)) + 60\<rparr>,
               sourceId = sid s, targetId = tid\<rparr>"
    unfolding in_calculateConnectors [OF a1 a2] by blast
  have 1: "conn_id c = ''conn-'' @ sourceId c @ ''-'' @ targetId c"
    by (simp add: ceq)
  have 2: "targetId c \<in> sid ` set (subSteps st)"
    using find_Some_sid [OF f] by (simp add: ceq)
  have 3: "sourceId c \<in> sid ` set (subSteps st)"
    using s by (simp add: ceq)
  from 1 2 3 show ?thesis by simp
qed

text \<open>
  C7. \<^verbatim>\<open>calculateConnectors\<close> has no failing branch: it is a total function of the state.
  Every connector it emits has the id \<open>conn-\<close> + source id + \<open>-\<close> + target id, and its
  source and target ids are ids of present nodes; so no connector is emitted for a target
  id that no node has. With the edges A \<rightarrow> ghost and A \<rightarrow> B, where no node is called ghost,
  the result is the single connector of A \<rightarrow> B.
\<close>

theorem connectors_omit_dangling:
  "(\<forall>c \<in> set (connectors (calculateConnectors st)).
      conn_id c = ''conn-'' @ sourceId c @ ''-'' @ targetId c \<and>
      targetId c \<in> sid ` set (subSteps st) \<and>
      sourceId c \<in> sid ` set (subSteps st)) \<and>
   (\<forall>tid. tid \<notin> sid ` set (subSteps st) \<longrightarrow>
      (\<forall>c \<in> set (connectors (calculateConnectors st)). targetId c \<noteq> tid)) \<and>
   connectors (calculateConnectors (exampleState
        [exampleSubStep ''A'' (Some \<lparr>px = 0, py = 0\<rparr>) (Some [''ghost'', ''B'']),
         exampleSubStep ''B'' (Some \<lparr>px = 300, py = 0\<rparr>) None])) =
     [\<lparr>conn_id = ''conn-A-B'', conn_from = \<lparr>px = 200, py = 60\<rparr>,
       conn_to = \<lparr>px = 300, py = 60\<rparr>, sourceId = ''A'', targetId = ''B''\<rparr>]"
proof (intro conjI)
  show "\<forall>c \<in> set (connectors (calculateConnectors st)).
      conn_id c = ''conn-'' @ sourceId c @ ''-'' @ targetId c \<and>
      targetId c \<in> sid ` set (subSteps st) \<and>
      sourceId c \<in> sid ` set (subSteps st)"
    by (rule ballI) (rule connectors_resolved_aux)
  show "\<forall>tid. tid \<notin> sid ` set (subSteps st) \<longrightarrow>
      (\<forall>c \<in> set (connectors (calculateConnectors st)). targetId c \<noteq> tid)"
    using connectors_resolved_aux [of _ st] by blast
  show "connectors (calculateConnectors (exampleState
        [exampleSubStep ''A'' (Some \<lparr>px = 0, py = 0\<rparr>) (Some [''ghost'', ''B'']),
         exampleSubStep ''B'' (Some \<lparr>px = 300, py = 0\<rparr>) None])) =
     [\<lparr>conn_id = ''conn-A-B'', conn_from = \<lparr>px = 200, py = 60\<rparr>,
       conn_to = \<lparr>px = 300, py = 60\<rparr>, sourceId = ''A'', targetId = ''B''\<rparr>]"
    by (simp add: calculateConnectors_example_eval connectorsOf_def pushConnector_def
          exampleSubStep_def or_zero_simps Let_def CARD_WIDTH_def CARD_HEIGHT_def)
qed

text \<open>
  C7, witness: no node of the example is called ghost, and no connector points to it.
\<close>

theorem connectors_omit_dangling_witness:
  "''ghost'' \<notin> sid ` set (subSteps (exampleState
        [exampleSubStep ''A'' (Some \<lparr>px = 0, py = 0\<rparr>) (Some [''ghost'', ''B'']),
         exampleSubStep ''B'' (Some \<lparr>px = 300, py = 0\<rparr>) None])) \<and>
   connectors (calculateConnectors (exampleState
        [exampleSubStep ''A'' (Some \<lparr>px = 0, py = 0\<rparr>) (Some [''ghost'', ''B'']),
         exampleSubStep ''B'' (Some \<lparr>px = 300, py = 0\<rparr>) None])) =
     [\<lparr>conn_id = ''conn-A-B'', conn_from = \<lparr>px = 200, py = 60\<rparr>,
      conn_to = \<lparr>px = 300, py = 60\<rparr>, sourceId = ''A'', targetId = ''B''\<rparr>] \<and>
   targetId (hd (connectors (calculateConnectors (exampleState
        [exampleSubStep ''A'' (Some \<lparr>px = 0, py = 0\<rparr>) (Some [''ghost'', ''B'']),
         exampleSubStep ''B'' (Some \<lparr>px = 300, py = 0\<rparr>) None])))) \<noteq> ''ghost'' \<and>
   targetId (hd (connectors (calculateConnectors (exampleState
        [exampleSubStep ''A'' (Some \<lparr>px = 0, py = 0\<rparr>) (Some [''ghost'', ''B'']),
         exampleSubStep ''B'' (Some \<lparr>px = 300, py = 0\<rparr>) None])))) \<in> sid ` set (subSteps (exampleState
        [exampleSubStep ''A'' (Some \<lparr>px = 0, py = 0\<rparr>) (Some [''ghost'', ''B'']),
         exampleSubStep ''B'' (Some \<lparr>px = 300, py = 0\<rparr>) None]))"
proof -
  have g: "''ghost'' \<notin> sid ` set (subSteps (exampleState
        [exampleSubStep ''A'' (Some \<lparr>px = 0, py = 0\<rparr>) (Some [''ghost'', ''B'']),
         exampleSubStep ''B'' (Some \<lparr>px = 300, py = 0\<rparr>) None]))"
    by (simp add: exampleState_def exampleSubStep_def)
  note T = connectors_omit_dangling [of "(exampleState
        [exampleSubStep ''A'' (Some \<lparr>px = 0, py = 0\<rparr>) (Some [''ghost'', ''B'']),
         exampleSubStep ''B'' (Some \<lparr>px = 300, py = 0\<rparr>) None])"]
  from T have ex: "connectors (calculateConnectors (exampleState
        [exampleSubStep ''A'' (Some \<lparr>px = 0, py = 0\<rparr>) (Some [''ghost'', ''B'']),
         exampleSubStep ''B'' (Some \<lparr>px = 300, py = 0\<rparr>) None])) =
     [\<lparr>conn_id = ''conn-A-B'', conn_from = \<lparr>px = 200, py = 60\<rparr>,
      conn_to = \<lparr>px = 300, py = 60\<rparr>, sourceId = ''A'', targetId = ''B''\<rparr>]"
    by simp
  from T have all: "\<forall>c \<in> set (connectors (calculateConnectors (exampleState
        [exampleSubStep ''A'' (Some \<lparr>px = 0, py = 0\<rparr>) (Some [''ghost'', ''B'']),
         exampleSubStep ''B'' (Some \<lparr>px = 300, py = 0\<rparr>) None]))).
      conn_id c = ''conn-'' @ sourceId c @ ''-'' @ targetId c \<and>
      targetId c \<in> sid ` set (subSteps (exampleState
        [exampleSubStep ''A'' (Some \<lparr>px = 0, py = 0\<rparr>) (Some [''ghost'', ''B'']),
         exampleSubStep ''B'' (Some \<lparr>px = 300, py = 0\<rparr>) None])) \<and>
      sourceId c \<in> sid ` set (subSteps (exampleState
        [exampleSubStep ''A'' (Some \<lparr>px = 0, py = 0\<rparr>) (Some [''ghost'', ''B'']),
         exampleSubStep ''B'' (Some \<lparr>px = 300, py = 0\<rparr>) None]))"
    by (rule conjunct1)
  have mem: "hd (connectors (calculateConnectors (exampleState
        [exampleSubStep ''A'' (Some \<lparr>px = 0, py = 0\<rparr>) (Some [''ghost'', ''B'']),
         exampleSubStep ''B'' (Some \<lparr>px = 300, py = 0\<rparr>) None])))
      \<in> set (connectors (calculateConnectors (exampleState
        [exampleSubStep ''A'' (Some \<lparr>px = 0, py = 0\<rparr>) (Some [''ghost'', ''B'']),
         exampleSubStep ''B'' (Some \<lparr>px = 300, py = 0\<rparr>) None])))"
    by (simp add: ex)
  from all mem have 1: "targetId (hd (connectors (calculateConnectors (exampleState
        [exampleSubStep ''A'' (Some \<lparr>px = 0, py = 0\<rparr>) (Some [''ghost'', ''B'']),
         exampleSubStep ''B'' (Some \<lparr>px = 300, py = 0\<rparr>) None]))))
      \<in> sid ` set (subSteps (exampleState
        [exampleSubStep ''A'' (Some \<lparr>px = 0, py = 0\<rparr>) (Some [''ghost'', ''B'']),
         exampleSubStep ''B'' (Some \<lparr>px = 300, py = 0\<rparr>) None]))"
    by blast
  from T g mem have 2: "targetId (hd (connectors (calculateConnectors (exampleState
        [exampleSubStep ''A'' (Some \<lparr>px = 0, py = 0\<rparr>) (Some [''ghost'', ''B'']),
         exampleSubStep ''B'' (Some \<lparr>px = 300, py = 0\<rparr>) None])))) \<noteq> ''ghost''"
    by blast
  from g ex 1 2 show ?thesis by (intro conjI)
qed

text \<open>
  C10. A node without a position is treated as located at (0, 0): its card is drawn at
  left 0, top 0; a connector leaving it starts at \<open>(0 + CARD_WIDTH, 0 + CARD_HEIGHT / 2)\<close>
  and a connector reaching it ends at \<open>(0, 0 + CARD_HEIGHT / 2)\<close>. For A \<rightarrow> B, both
  without position, the connector runs from (200, 60) to (0, 60).
\<close>

theorem missing_position_is_origin:
  "(position n = None \<longrightarrow> SubStepCard_style n = \<lparr>px = 0, py = 0\<rparr>) \<and>
   (flowContainer st \<noteq> None \<and> subStepCardRefs st \<noteq> [] \<longrightarrow>
      (\<forall>s \<in> set (subSteps st). \<forall>tid \<in> set (or_empty (nextSubStepIds s)). \<forall>t.
        find (\<lambda>ss. sid ss = tid) (subSteps st) = Some t \<and> position s = None \<longrightarrow>
          \<lparr>conn_id = ''conn-'' @ sid s @ ''-'' @ tid,
               conn_from = \<lparr>px = 0 + CARD_WIDTH, py = 0 + CARD_HEIGHT / 2\<rparr>,
               conn_to = \<lparr>px = or_zero (map_option px (position t)), py = or_zero (map_option py (position t)) + CARD_HEIGHT / 2\<rparr>,
               sourceId = sid s, targetId = tid\<rparr>
          \<in> set (connectors (calculateConnectors st))) \<and>
      (\<forall>s \<in> set (subSteps st). \<forall>tid \<in> set (or_empty (nextSubStepIds s)). \<forall>t.
        find (\<lambda>ss. sid ss = tid) (subSteps st) = Some t \<and> position t = None \<longrightarrow>
          \<lparr>conn_id = ''conn-'' @ sid s @ ''-'' @ tid,
               conn_from = \<lparr>px = or_zero (map_option px (position s)) + CARD_WIDTH, py = or_zero (map_option py (position s)) + CARD_HEIGHT / 2\<rparr>,
               conn_to = \<lparr>px = 0, py = 0 + CARD_HEIGHT / 2\<rparr>,
               sourceId = sid s, targetId = tid\<rparr>
          \<in> set (connectors (calculateConnectors st)))) \<and>
   connectors (calculateConnectors (exampleState
        [exampleSubStep ''A'' None (Some [''B'']), exampleSubStep ''B'' None None])) =
     [\<lparr>conn_id = ''conn-A-B'', conn_from = \<lparr>px = 200, py = 60\<rparr>,
       conn_to = \<lparr>px = 0, py = 60\<rparr>, sourceId = ''A'', targetId = ''B''\<rparr>]"
proof -
  have p1: "position n = None \<longrightarrow> SubStepCard_style n = \<lparr>px = 0, py = 0\<rparr>"
    by (simp add: SubStepCard_style_def or_zero_simps)
  have p2: "flowContainer st \<noteq> None \<and> subStepCardRefs st \<noteq> [] \<longrightarrow>
      (\<forall>s \<in> set (subSteps st). \<forall>tid \<in> set (or_empty (nextSubStepIds s)). \<forall>t.
        find (\<lambda>ss. sid ss = tid) (subSteps st) = Some t \<and> position s = None \<longrightarrow>
          \<lparr>conn_id = ''conn-'' @ sid s @ ''-'' @ tid,
               conn_from = \<lparr>px = 0 + CARD_WIDTH, py = 0 + CARD_HEIGHT / 2\<rparr>,
               conn_to = \<lparr>px = or_zero (map_option px (position t)), py = or_zero (map_option py (position t)) + CARD_HEIGHT / 2\<rparr>,
               sourceId = sid s, targetId = tid\<rparr>
          \<in> set (connectors (calculateConnectors st))) \<and>
      (\<forall>s \<in> set (subSteps st). \<forall>tid \<in> set (or_empty (nextSubStepIds s)). \<forall>t.
        find (\<lambda>ss. sid ss = tid) (subSteps st) = Some t \<and> position t = None \<longrightarrow>
          \<lparr>conn_id = ''conn-'' @ sid s @ ''-'' @ tid,
               conn_from = \<lparr>px = or_zero (map_option px (position s)) + CARD_WIDTH, py = or_zero (map_option py (position s)) + CARD_HEIGHT / 2\<rparr>,
               conn_to = \<lparr>px = 0, py = 0 + CARD_HEIGHT / 2\<rparr>,
               sourceId = sid s, targetId = tid\<rparr>
          \<in> set (connectors (calculateConnectors st)))"
  proof (rule impI, rule conjI)
    assume a: "flowContainer st \<noteq> None \<and> subStepCardRefs st \<noteq> []"
    then have a1: "flowContainer st \<noteq> None" and a2: "subStepCardRefs st \<noteq> []"
      by simp_all
    show "(\<forall>s \<in> set (subSteps st). \<forall>tid \<in> set (or_empty (nextSubStepIds s)). \<forall>t.
        find (\<lambda>ss. sid ss = tid) (subSteps st) = Some t \<and> position s = None \<longrightarrow>
          \<lparr>conn_id = ''conn-'' @ sid s @ ''-'' @ tid,
               conn_from = \<lparr>px = 0 + CARD_WIDTH, py = 0 + CARD_HEIGHT / 2\<rparr>,
               conn_to = \<lparr>px = or_zero (map_option px (position t)), py = or_zero (map_option py (position t)) + CARD_HEIGHT / 2\<rparr>,
               sourceId = sid s, targetId = tid\<rparr>
          \<in> set (connectors (calculateConnectors st)))"
    proof (intro ballI allI impI)
      fix s :: SubStep and tid t
      assume s: "s \<in> set (subSteps st)" and tid: "tid \<in> set (or_empty (nextSubStepIds s))"
        and h: "find (\<lambda>ss. sid ss = tid) (subSteps st) = Some t \<and> position s = None"
      have eq: "\<lparr>conn_id = ''conn-'' @ sid s @ ''-'' @ tid,
               conn_from = \<lparr>px = 0 + CARD_WIDTH, py = 0 + CARD_HEIGHT / 2\<rparr>,
               conn_to = \<lparr>px = or_zero (map_option px (position t)), py = or_zero (map_option py (position t)) + CARD_HEIGHT / 2\<rparr>,
               sourceId = sid s, targetId = tid\<rparr> =
            \<lparr>conn_id = ''conn-'' @ sid s @ ''-'' @ tid,
               conn_from = \<lparr>px = or_zero (map_option px (position s)) + 200, py = or_zero (map_option py (position s)) + 60\<rparr>,
               conn_to = \<lparr>px = or_zero (map_option px (position t)), py = or_zero (map_option py (position t)) + 60\<rparr>,
               sourceId = sid s, targetId = tid\<rparr>"
        using h by (simp add: or_zero_simps CARD_WIDTH_def CARD_HEIGHT_def)
      have mem: "\<lparr>conn_id = ''conn-'' @ sid s @ ''-'' @ tid,
               conn_from = \<lparr>px = or_zero (map_option px (position s)) + 200, py = or_zero (map_option py (position s)) + 60\<rparr>,
               conn_to = \<lparr>px = or_zero (map_option px (position t)), py = or_zero (map_option py (position t)) + 60\<rparr>,
               sourceId = sid s, targetId = tid\<rparr>
            \<in> set (connectors (calculateConnectors st))"
        unfolding in_calculateConnectors [OF a1 a2] using s tid h by blast
      show "\<lparr>conn_id = ''conn-'' @ sid s @ ''-'' @ tid,
               conn_from = \<lparr>px = 0 + CARD_WIDTH, py = 0 + CARD_HEIGHT / 2\<rparr>,
               conn_to = \<lparr>px = or_zero (map_option px (position t)), py = or_zero (map_option py (position t)) + CARD_HEIGHT / 2\<rparr>,
               sourceId = sid s, targetId = tid\<rparr>
          \<in> set (connectors (calculateConnectors st))"
        unfolding eq by (rule mem)
    qed
    show "(\<forall>s \<in> set (subSteps st). \<forall>tid \<in> set (or_empty (nextSubStepIds s)). \<forall>t.
        find (\<lambda>ss. sid ss = tid) (subSteps st) = Some t \<and> position t = None \<longrightarrow>
          \<lparr>conn_id = ''conn-'' @ sid s @ ''-'' @ tid,
               conn_from = \<lparr>px = or_zero (map_option px (position s)) + CARD_WIDTH, py = or_zero (map_option py (position s)) + CARD_HEIGHT / 2\<rparr>,
               conn_to = \<lparr>px = 0, py = 0 + CARD_HEIGHT / 2\<rparr>,
               sourceId = sid s, targetId = tid\<rparr>
          \<in> set (connectors (calculateConnectors st)))"
    proof (intro ballI allI impI)
      fix s :: SubStep and tid t
      assume s: "s \<in> set (subSteps st)" and tid: "tid \<in> set (or_empty (nextSubStepIds s))"
        and h: "find (\<lambda>ss. sid ss = tid) (subSteps st) = Some t \<and> position t = None"
      have eq: "\<lparr>conn_id = ''conn-'' @ sid s @ ''-'' @ tid,
               conn_from = \<lparr>px = or_zero (map_option px (position s)) + CARD_WIDTH, py = or_zero (map_option py (position s)) + CARD_HEIGHT / 2\<rparr>,
               conn_to = \<lparr>px = 0, py = 0 + CARD_HEIGHT / 2\<rparr>,
               sourceId = sid s, targetId = tid\<rparr> =
            \<lparr>conn_id = ''conn-'' @ sid s @ ''-'' @ tid,
               conn_from = \<lparr>px = or_zero (map_option px (position s)) + 200, py = or_zero (map_option py (position s)) + 60\<rparr>,
               conn_to = \<lparr>px = or_zero (map_option px (position t)), py = or_zero (map_option py (position t)) + 60\<rparr>,
               sourceId = sid s, targetId = tid\<rparr>"
        using h by (simp add: or_zero_simps CARD_WIDTH_def CARD_HEIGHT_def)
      have mem: "\<lparr>conn_id = ''conn-'' @ sid s @ ''-'' @ tid,
               conn_from = \<lparr>px = or_zero (map_option px (position s)) + 200, py = or_zero (map_option py (position s)) + 60\<rparr>,
               conn_to = \<lparr>px = or_zero (map_option px (position t)), py = or_zero (map_option py (position t)) + 60\<rparr>,
               sourceId = sid s, targetId = tid\<rparr>
            \<in> set (connectors (calculateConnectors st))"
        unfolding in_calculateConnectors [OF a1 a2] using s tid h by blast
      show "\<lparr>conn_id = ''conn-'' @ sid s @ ''-'' @ tid,
               conn_from = \<lparr>px = or_zero (map_option px (position s)) + CARD_WIDTH, py = or_zero (map_option py (position s)) + CARD_HEIGHT / 2\<rparr>,
               conn_to = \<lparr>px = 0, py = 0 + CARD_HEIGHT / 2\<rparr>,
               sourceId = sid s, targetId = tid\<rparr>
          \<in> set (connectors (calculateConnectors st))"
        unfolding eq by (rule mem)
    qed
  qed
  have p3: "connectors (calculateConnectors (exampleState
        [exampleSubStep ''A'' None (Some [''B'']), exampleSubStep ''B'' None None])) =
     [\<lparr>conn_id = ''conn-A-B'', conn_from = \<lparr>px = 200, py = 60\<rparr>,
       conn_to = \<lparr>px = 0, py = 60\<rparr>, sourceId = ''A'', targetId = ''B''\<rparr>]"
    by (simp add: calculateConnectors_example_eval connectorsOf_def pushConnector_def
          exampleSubStep_def or_zero_simps Let_def CARD_WIDTH_def CARD_HEIGHT_def)
  show ?thesis
    apply (rule conjI, rule p1)
    apply (rule conjI, rule p2)
    apply (rule p3)
    done
qed

text \<open>
  C10, witness: the position-less node A of the mounted example canvas.
\<close>

theorem missing_position_is_origin_witness:
  "position (exampleSubStep ''A'' None (Some [''B''])) = None \<and>
   SubStepCard_style (exampleSubStep ''A'' None (Some [''B''])) = \<lparr>px = 0, py = 0\<rparr> \<and>
   flowContainer (exampleState
        [exampleSubStep ''A'' None (Some [''B'']), exampleSubStep ''B'' None None]) \<noteq> None \<and> subStepCardRefs (exampleState
        [exampleSubStep ''A'' None (Some [''B'']), exampleSubStep ''B'' None None]) \<noteq> [] \<and>
   connectors (calculateConnectors (exampleState
        [exampleSubStep ''A'' None (Some [''B'']), exampleSubStep ''B'' None None])) =
     [\<lparr>conn_id = ''conn-A-B'', conn_from = \<lparr>px = 200, py = 60\<rparr>,
       conn_to = \<lparr>px = 0, py = 60\<rparr>, sourceId = ''A'', targetId = ''B''\<rparr>]"
  using missing_position_is_origin [of "exampleSubStep ''A'' None (Some [''B''])" "(exampleState
        [exampleSubStep ''A'' None (Some [''B'']), exampleSubStep ''B'' None None])"]
  by (simp add: exampleState_def exampleSubStep_def)

section \<open>Merging proposals\<close>

lemma frame_nth:
  assumes fr: "map (\<lambda>n. n\<lparr>actionItems := None\<rparr>) xs = map (\<lambda>n. n\<lparr>actionItems := None\<rparr>) ys"
    and k: "k < length ys"
  shows "sid (xs ! k) = sid (ys ! k) \<and> stext (xs ! k) = stext (ys ! k) \<and>
         snotes (xs ! k) = snotes (ys ! k) \<and> position (xs ! k) = position (ys ! k) \<and>
         nextSubStepIds (xs ! k) = nextSubStepIds (ys ! k) \<and> status (xs ! k) = status (ys ! k)"
proof -
  from fr have "length (map (\<lambda>n. n\<lparr>actionItems := None\<rparr>) xs) =
                length (map (\<lambda>n. n\<lparr>actionItems := None\<rparr>) ys)"
    by (rule arg_cong)
  then have len: "length xs = length ys" by simp
  from fr have "map (\<lambda>n. n\<lparr>actionItems := None\<rparr>) xs ! k =
                map (\<lambda>n. n\<lparr>actionItems := None\<rparr>) ys ! k"
    by (rule arg_cong)
  with k len have e: "(xs ! k)\<lparr>actionItems := None\<rparr> = (ys ! k)\<lparr>actionItems := None\<rparr>"
    by simp
  have "sid ((xs ! k)\<lparr>actionItems := None\<rparr>) = sid ((ys ! k)\<lparr>actionItems := None\<rparr>)"
       "stext ((xs ! k)\<lparr>actionItems := None\<rparr>) = stext ((ys ! k)\<lparr>actionItems := None\<rparr>)"
       "snotes ((xs ! k)\<lparr>actionItems := None\<rparr>) = snotes ((ys ! k)\<lparr>actionItems := None\<rparr>)"
       "position ((xs ! k)\<lparr>actionItems := None\<rparr>) = position ((ys ! k)\<lparr>actionItems := None\<rparr>)"
       "nextSubStepIds ((xs ! k)\<lparr>actionItems := None\<rparr>) =
          nextSubStepIds ((ys ! k)\<lparr>actionItems := None\<rparr>)"
       "status ((xs ! k)\<lparr>actionItems := None\<rparr>) = status ((ys ! k)\<lparr>actionItems := None\<rparr>)"
    by (simp_all only: e)
  then show ?thesis by simp
qed

lemma frame_length:
  assumes "map (\<lambda>n. n\<lparr>actionItems := None\<rparr>) xs = map (\<lambda>n. n\<lparr>actionItems := None\<rparr>) ys"
  shows "length xs = length ys"
proof -
  from assms have "length (map (\<lambda>n. n\<lparr>actionItems := None\<rparr>) xs) =
                   length (map (\<lambda>n. n\<lparr>actionItems := None\<rparr>) ys)"
    by (rule arg_cong)
  then show ?thesis by simp
qed

lemma handleConfirmProposals_shape:
  "\<exists>news.
     map (\<lambda>n. n\<lparr>actionItems := None\<rparr>) (subSteps (snd (handleConfirmProposals gen g st adds))) =
       map (\<lambda>n. n\<lparr>actionItems := None\<rparr>) (subSteps st @ news) \<and>
     length news = length (newSubSteps adds) \<and>
     (\<forall>j < length (newSubSteps adds).
         stext (news ! j) = p_title (newSubSteps adds ! j) \<and>
         snotes (news ! j) = Some (p_description (newSubSteps adds ! j)) \<and>
         actionItems (news ! j) = Some [] \<and>
         nextSubStepIds (news ! j) = None \<and>
         status (news ! j) = None \<and>
         position (news ! j) =
           Some \<lparr>px = 50 + (real (length (subSteps st) + j) + real (0 + j)) * 220, py = 50\<rparr>)"
proof -
  obtain g1 appended where
    app: "fold (pushProposal gen) (List.enumerate 0 (newSubSteps adds)) (g, subSteps st) =
            (g1, appended)"
    by (cases "fold (pushProposal gen) (List.enumerate 0 (newSubSteps adds)) (g, subSteps st)")
  from fold_pushProposal [of gen 0 "newSubSteps adds" g "subSteps st"]
  obtain news where
    all: "snd (fold (pushProposal gen) (List.enumerate 0 (newSubSteps adds)) (g, subSteps st)) =
            subSteps st @ news \<and>
      length news = length (newSubSteps adds) \<and>
      (\<forall>j < length (newSubSteps adds).
         stext (news ! j) = p_title (newSubSteps adds ! j) \<and>
         snotes (news ! j) = Some (p_description (newSubSteps adds ! j)) \<and>
         actionItems (news ! j) = Some [] \<and>
         nextSubStepIds (news ! j) = None \<and>
         status (news ! j) = None \<and>
         position (news ! j) =
           Some \<lparr>px = 50 + (real (length (subSteps st) + j) + real (0 + j)) * 220, py = 50\<rparr>)"
    ..
  from all app have news: "appended = subSteps st @ news" by simp
  have "map (\<lambda>n. n\<lparr>actionItems := None\<rparr>)
          (snd (fold (pushActionItem gen) (newActionItems adds) (g1, appended))) =
        map (\<lambda>n. n\<lparr>actionItems := None\<rparr>) appended"
    by (rule fold_pushActionItem_frame)
  then have "map (\<lambda>n. n\<lparr>actionItems := None\<rparr>)
               (subSteps (snd (handleConfirmProposals gen g st adds))) =
             map (\<lambda>n. n\<lparr>actionItems := None\<rparr>) (subSteps st @ news)"
    by (simp add: handleConfirmProposals_subSteps app news)
  with all show ?thesis by blast
qed

lemma handleConfirmProposals_ignores_unresolved:
  "handleConfirmProposals gen g st \<lparr>newSubSteps = ps, newActionItems = items\<rparr> =
   handleConfirmProposals gen g st
     \<lparr>newSubSteps = ps,
      newActionItems =
        filter (\<lambda>item. targetSubStepId item \<in>
                  sid ` set (subSteps (snd (handleConfirmProposals gen g st
                                \<lparr>newSubSteps = ps, newActionItems = []\<rparr>))))
               items\<rparr>"
proof -
  obtain g1 appended where
    app: "fold (pushProposal gen) (List.enumerate 0 ps) (g, subSteps st) = (g1, appended)"
    by (cases "fold (pushProposal gen) (List.enumerate 0 ps) (g, subSteps st)")
  have post: "subSteps (snd (handleConfirmProposals gen g st
                \<lparr>newSubSteps = ps, newActionItems = []\<rparr>)) = appended"
    by (simp add: handleConfirmProposals_subSteps app)
  have "fold (pushActionItem gen) items (g1, appended) =
        fold (pushActionItem gen)
          (filter (\<lambda>item. targetSubStepId item \<in> sid ` set appended) items) (g1, appended)"
    by (rule fold_pushActionItem_filter)
  then show ?thesis
    unfolding post by (simp add: handleConfirmProposals_def app)
qed


lemma map_gen_cong:
  "(\<And>v h. v \<in> set vs \<Longrightarrow> f v h = f' v h) \<Longrightarrow> map_gen f vs g = map_gen f' vs g"
  by (induction vs arbitrary: g) simp_all

lemma map_gen_proposalSubStep:
  "length (fst (map_gen (proposalSubStep gen len) ps g)) = length ps \<and>
   (\<forall>j < length ps.
      stext (fst (map_gen (proposalSubStep gen len) ps g) ! j) = p_title (ps ! j) \<and>
      snotes (fst (map_gen (proposalSubStep gen len) ps g) ! j) = Some (p_description (ps ! j)) \<and>
      actionItems (fst (map_gen (proposalSubStep gen len) ps g) ! j) = Some [] \<and>
      nextSubStepIds (fst (map_gen (proposalSubStep gen len) ps g) ! j) = None \<and>
      status (fst (map_gen (proposalSubStep gen len) ps g) ! j) = None \<and>
      position (fst (map_gen (proposalSubStep gen len) ps g) ! j) =
        Some \<lparr>px = 50 + real len * 250, py = 50\<rparr>)"
proof (induction ps arbitrary: g)
  case Nil
  show ?case by simp
next
  case (Cons p ps)
  let ?n = "\<lparr>sid = fst (gen g ''substep''), stext = p_title p,
              snotes = Some (p_description p),
              position = Some \<lparr>px = 50 + real len * 250, py = 50\<rparr>,
              nextSubStepIds = None, actionItems = Some [], status = None\<rparr>"
  let ?rest = "fst (map_gen (proposalSubStep gen len) ps (snd (gen g ''substep'')))"
  have eq: "fst (map_gen (proposalSubStep gen len) (p # ps) g) = ?n # ?rest"
    by (simp add: proposalSubStep_def Let_def case_prod_beta)
  note IH = Cons.IH [of "snd (gen g ''substep'')"]
  show ?case
    unfolding eq
  proof (intro conjI allI impI)
    show "length (?n # ?rest) = length (p # ps)"
      using IH by simp
  next
    fix j
    assume j: "j < length (p # ps)"
    show "stext ((?n # ?rest) ! j) = p_title ((p # ps) ! j)"
      using IH j by (cases j) simp_all
    show "snotes ((?n # ?rest) ! j) = Some (p_description ((p # ps) ! j))"
      using IH j by (cases j) simp_all
    show "actionItems ((?n # ?rest) ! j) = Some []"
      using IH j by (cases j) simp_all
    show "nextSubStepIds ((?n # ?rest) ! j) = None"
      using IH j by (cases j) simp_all
    show "status ((?n # ?rest) ! j) = None"
      using IH j by (cases j) simp_all
    show "position ((?n # ?rest) ! j) = Some \<lparr>px = 50 + real len * 250, py = 50\<rparr>"
      using IH j by (cases j) simp_all
  qed
qed

lemma attachActionItems_frame:
  "(fst (attachActionItems gen items s g))\<lparr>actionItems := None\<rparr> = s\<lparr>actionItems := None\<rparr>"
  by (simp add: attachActionItems_def Let_def case_prod_beta)

lemma map_gen_attach_frame:
  "map (\<lambda>n. n\<lparr>actionItems := None\<rparr>) (fst (map_gen (attachActionItems gen items) xs g)) =
   map (\<lambda>n. n\<lparr>actionItems := None\<rparr>) xs"
  by (induction xs arbitrary: g) (simp_all add: case_prod_beta attachActionItems_frame)

lemma map_gen_attach_none:
  "map_gen (attachActionItems gen []) xs g = (xs, g)"
  by (induction xs arbitrary: g) (simp_all add: attachActionItems_def)

lemma attachActionItems_filter:
  assumes "sid s \<in> A"
  shows "attachActionItems gen items s g =
         attachActionItems gen (filter (\<lambda>item. targetSubStepId item \<in> A) items) s g"
proof -
  have "filter (\<lambda>item. targetSubStepId item = sid s)
          (filter (\<lambda>item. targetSubStepId item \<in> A) items) =
        filter (\<lambda>item. targetSubStepId item = sid s) items"
    using assms by (induction items) simp_all
  then show ?thesis by (simp add: attachActionItems_def)
qed

lemma part0_subSteps:
  "snd (handleConfirmProposals_part0 gen g ns adds) =
     fst (map_gen (attachActionItems gen (newActionItems adds))
            (ns @ fst (map_gen (proposalSubStep gen (length ns)) (newSubSteps adds) g))
            (snd (map_gen (proposalSubStep gen (length ns)) (newSubSteps adds) g)))"
  by (simp add: handleConfirmProposals_part0_def case_prod_beta)

lemma part0_ignores_unresolved:
  "handleConfirmProposals_part0 gen g ns \<lparr>newSubSteps = ps, newActionItems = items\<rparr> =
   handleConfirmProposals_part0 gen g ns
     \<lparr>newSubSteps = ps,
      newActionItems =
        filter (\<lambda>item. targetSubStepId item \<in>
                  sid ` set (snd (handleConfirmProposals_part0 gen g ns
                                \<lparr>newSubSteps = ps, newActionItems = []\<rparr>)))
               items\<rparr>"
proof -
  let ?all = "ns @ fst (map_gen (proposalSubStep gen (length ns)) ps g)"
  let ?g1 = "snd (map_gen (proposalSubStep gen (length ns)) ps g)"
  have post: "snd (handleConfirmProposals_part0 gen g ns
                \<lparr>newSubSteps = ps, newActionItems = []\<rparr>) = ?all"
    by (simp add: part0_subSteps map_gen_attach_none)
  have "map_gen (attachActionItems gen items) ?all ?g1 =
        map_gen (attachActionItems gen
                   (filter (\<lambda>item. targetSubStepId item \<in> sid ` set ?all) items)) ?all ?g1"
    by (rule map_gen_cong) (rule attachActionItems_filter, rule imageI)
  then show ?thesis
    unfolding post by (simp add: handleConfirmProposals_part0_def case_prod_beta)
qed


lemma placement_from_shape:
  assumes fr: "map (\<lambda>n. n\<lparr>actionItems := None\<rparr>) R =
               map (\<lambda>n. n\<lparr>actionItems := None\<rparr>) (old @ news)"
    and len: "length news = length ps"
    and each: "\<forall>j < length ps.
         stext (news ! j) = p_title (ps ! j) \<and>
         snotes (news ! j) = Some (p_description (ps ! j)) \<and>
         nextSubStepIds (news ! j) = None \<and>
         (\<exists>x. position (news ! j) = Some \<lparr>px = x, py = 50\<rparr>)"
    and first: "0 < length ps \<longrightarrow> position (news ! 0) = Some \<lparr>px = X, py = 50\<rparr>"
  shows "length R = length old + length ps \<and>
     (\<forall>j < length ps.
        stext (R ! (length old + j)) = p_title (ps ! j) \<and>
        snotes (R ! (length old + j)) = Some (p_description (ps ! j)) \<and>
        nextSubStepIds (R ! (length old + j)) = None \<and>
        (\<exists>x. position (R ! (length old + j)) = Some \<lparr>px = x, py = 50\<rparr>)) \<and>
     (0 < length ps \<longrightarrow> position (R ! length old) = Some \<lparr>px = X, py = 50\<rparr>)"
proof (intro conjI allI impI)
  show "length R = length old + length ps"
    using frame_length [OF fr] len by simp
next
  fix j
  assume j: "j < length ps"
  then have k: "length old + j < length (old @ news)"
    using len by simp
  have nth: "(old @ news) ! (length old + j) = news ! j"
    by (rule nth_append_length_plus)
  note F = frame_nth [OF fr k, unfolded nth]
  from F each j show "stext (R ! (length old + j)) = p_title (ps ! j)" by simp
  from F each j show "snotes (R ! (length old + j)) = Some (p_description (ps ! j))" by simp
  from F each j show "nextSubStepIds (R ! (length old + j)) = None" by simp
  from F each j show "\<exists>x. position (R ! (length old + j)) = Some \<lparr>px = x, py = 50\<rparr>" by simp
next
  assume p: "0 < length ps"
  then have k: "length old + 0 < length (old @ news)"
    using len by simp
  have nth: "(old @ news) ! (length old + 0) = news ! 0"
    by (rule nth_append_length_plus)
  note F = frame_nth [OF fr k, unfolded nth]
  from F first p show "position (R ! length old) = Some \<lparr>px = X, py = 50\<rparr>" by simp
qed

text \<open>
  C8, as the code has it, for both variants of \<^verbatim>\<open>handleConfirmProposals\<close>. Merging the
  single proposal (T, D) into an empty node set yields exactly one node, with text T,
  notes D, an empty action-item sequence and position (50, 50). A new action item whose
  target id is not the id of a node of the post-append set is ignored: the result, id
  generator included, is that of merging the resolving items alone. The existing nodes
  keep their order and every field but the action items; the appended nodes follow them in
  proposal order, carry the proposals' titles and descriptions and no edges, and lie on the
  row \<open>y = 50\<close>, the first of them at \<open>x = 50 + len(nodes) * 220\<close> (\<open>* 250\<close> in the
  variant of part\_000); they are not laid out on the three-column grid.
\<close>

theorem mergeProposals_appends:
  "(subSteps st = [] \<longrightarrow>
      subSteps (snd (handleConfirmProposals gen g st
          \<lparr>newSubSteps = [\<lparr>p_title = ''T'', p_description = ''D''\<rparr>], newActionItems = []\<rparr>)) =
       [\<lparr>sid = fst (gen g ''substep''), stext = ''T'', snotes = Some ''D'',
        position = Some \<lparr>px = 50, py = 50\<rparr>,
        nextSubStepIds = None, actionItems = Some [], status = None\<rparr>]) \<and>
   snd (handleConfirmProposals_part0 gen g []
          \<lparr>newSubSteps = [\<lparr>p_title = ''T'', p_description = ''D''\<rparr>], newActionItems = []\<rparr>) =
       [\<lparr>sid = fst (gen g ''substep''), stext = ''T'', snotes = Some ''D'',
        position = Some \<lparr>px = 50, py = 50\<rparr>,
        nextSubStepIds = None, actionItems = Some [], status = None\<rparr>] \<and>
   handleConfirmProposals gen g st \<lparr>newSubSteps = ps, newActionItems = items\<rparr> =
     handleConfirmProposals gen g st
       \<lparr>newSubSteps = ps,
        newActionItems =
          filter (\<lambda>item. targetSubStepId item \<in>
                    sid ` set (subSteps (snd (handleConfirmProposals gen g st
                                  \<lparr>newSubSteps = ps, newActionItems = []\<rparr>))))
                 items\<rparr> \<and>
   handleConfirmProposals_part0 gen g ns \<lparr>newSubSteps = ps, newActionItems = items\<rparr> =
     handleConfirmProposals_part0 gen g ns
       \<lparr>newSubSteps = ps,
        newActionItems =
          filter (\<lambda>item. targetSubStepId item \<in>
                    sid ` set (snd (handleConfirmProposals_part0 gen g ns
                                  \<lparr>newSubSteps = ps, newActionItems = []\<rparr>)))
                 items\<rparr> \<and>
   (length (subSteps (snd (handleConfirmProposals gen g st adds))) = length (subSteps st) + length (newSubSteps adds) \<and>
     (\<forall>j < length (newSubSteps adds).
        stext (subSteps (snd (handleConfirmProposals gen g st adds)) ! (length (subSteps st) + j)) = p_title (newSubSteps adds ! j) \<and>
        snotes (subSteps (snd (handleConfirmProposals gen g st adds)) ! (length (subSteps st) + j)) = Some (p_description (newSubSteps adds ! j)) \<and>
        nextSubStepIds (subSteps (snd (handleConfirmProposals gen g st adds)) ! (length (subSteps st) + j)) = None \<and>
        (\<exists>x. position (subSteps (snd (handleConfirmProposals gen g st adds)) ! (length (subSteps st) + j)) = Some \<lparr>px = x, py = 50\<rparr>)) \<and>
     (0 < length (newSubSteps adds) \<longrightarrow>
        position (subSteps (snd (handleConfirmProposals gen g st adds)) ! length (subSteps st)) = Some \<lparr>px = 50 + real (length (subSteps st)) * 220, py = 50\<rparr>)) \<and>
   (length (snd (handleConfirmProposals_part0 gen g ns adds)) = length ns + length (newSubSteps adds) \<and>
     (\<forall>j < length (newSubSteps adds).
        stext (snd (handleConfirmProposals_part0 gen g ns adds) ! (length ns + j)) = p_title (newSubSteps adds ! j) \<and>
        snotes (snd (handleConfirmProposals_part0 gen g ns adds) ! (length ns + j)) = Some (p_description (newSubSteps adds ! j)) \<and>
        nextSubStepIds (snd (handleConfirmProposals_part0 gen g ns adds) ! (length ns + j)) = None \<and>
        (\<exists>x. position (snd (handleConfirmProposals_part0 gen g ns adds) ! (length ns + j)) = Some \<lparr>px = x, py = 50\<rparr>)) \<and>
     (0 < length (newSubSteps adds) \<longrightarrow>
        position (snd (handleConfirmProposals_part0 gen g ns adds) ! length ns) = Some \<lparr>px = 50 + real (length ns) * 250, py = 50\<rparr>))"
proof -
  have p1: "(subSteps st = [] \<longrightarrow>
      subSteps (snd (handleConfirmProposals gen g st
          \<lparr>newSubSteps = [\<lparr>p_title = ''T'', p_description = ''D''\<rparr>], newActionItems = []\<rparr>)) =
       [\<lparr>sid = fst (gen g ''substep''), stext = ''T'', snotes = Some ''D'',
        position = Some \<lparr>px = 50, py = 50\<rparr>,
        nextSubStepIds = None, actionItems = Some [], status = None\<rparr>])"
    by (simp add: handleConfirmProposals_def pushProposal_def pushActionItem_def
          Let_def case_prod_beta)
  have p2: "snd (handleConfirmProposals_part0 gen g []
          \<lparr>newSubSteps = [\<lparr>p_title = ''T'', p_description = ''D''\<rparr>], newActionItems = []\<rparr>) =
       [\<lparr>sid = fst (gen g ''substep''), stext = ''T'', snotes = Some ''D'',
        position = Some \<lparr>px = 50, py = 50\<rparr>,
        nextSubStepIds = None, actionItems = Some [], status = None\<rparr>]"
    by (simp add: handleConfirmProposals_part0_def proposalSubStep_def attachActionItems_def
          Let_def case_prod_beta)
  have p3: "handleConfirmProposals gen g st \<lparr>newSubSteps = ps, newActionItems = items\<rparr> =
     handleConfirmProposals gen g st
       \<lparr>newSubSteps = ps,
        newActionItems =
          filter (\<lambda>item. targetSubStepId item \<in>
                    sid ` set (subSteps (snd (handleConfirmProposals gen g st
                                  \<lparr>newSubSteps = ps, newActionItems = []\<rparr>))))
                 items\<rparr>"
    by (rule handleConfirmProposals_ignores_unresolved)
  have p4: "handleConfirmProposals_part0 gen g ns \<lparr>newSubSteps = ps, newActionItems = items\<rparr> =
     handleConfirmProposals_part0 gen g ns
       \<lparr>newSubSteps = ps,
        newActionItems =
          filter (\<lambda>item. targetSubStepId item \<in>
                    sid ` set (snd (handleConfirmProposals_part0 gen g ns
                                  \<lparr>newSubSteps = ps, newActionItems = []\<rparr>)))
                 items\<rparr>"
    by (rule part0_ignores_unresolved)
  have p5: "length (subSteps (snd (handleConfirmProposals gen g st adds))) = length (subSteps st) + length (newSubSteps adds) \<and>
     (\<forall>j < length (newSubSteps adds).
        stext (subSteps (snd (handleConfirmProposals gen g st adds)) ! (length (subSteps st) + j)) = p_title (newSubSteps adds ! j) \<and>
        snotes (subSteps (snd (handleConfirmProposals gen g st adds)) ! (length (subSteps st) + j)) = Some (p_description (newSubSteps adds ! j)) \<and>
        nextSubStepIds (subSteps (snd (handleConfirmProposals gen g st adds)) ! (length (subSteps st) + j)) = None \<and>
        (\<exists>x. position (subSteps (snd (handleConfirmProposals gen g st adds)) ! (length (subSteps st) + j)) = Some \<lparr>px = x, py = 50\<rparr>)) \<and>
     (0 < length (newSubSteps adds) \<longrightarrow>
        position (subSteps (snd (handleConfirmProposals gen g st adds)) ! length (subSteps st)) = Some \<lparr>px = 50 + real (length (subSteps st)) * 220, py = 50\<rparr>)"
  proof -
    from handleConfirmProposals_shape [of gen g st adds]
    obtain news where
      fr: "map (\<lambda>n. n\<lparr>actionItems := None\<rparr>) (subSteps (snd (handleConfirmProposals gen g st adds))) =
           map (\<lambda>n. n\<lparr>actionItems := None\<rparr>) (subSteps st @ news)"
      and len: "length news = length (newSubSteps adds)"
      and each: "\<forall>j < length (newSubSteps adds).
         stext (news ! j) = p_title (newSubSteps adds ! j) \<and>
         snotes (news ! j) = Some (p_description (newSubSteps adds ! j)) \<and>
         actionItems (news ! j) = Some [] \<and>
         nextSubStepIds (news ! j) = None \<and>
         status (news ! j) = None \<and>
         position (news ! j) =
           Some \<lparr>px = 50 + (real (length (subSteps st) + j) + real (0 + j)) * 220, py = 50\<rparr>"
      by (elim exE conjE) (rule that)
    from each have each': "\<forall>j < length (newSubSteps adds).
         stext (news ! j) = p_title (newSubSteps adds ! j) \<and>
         snotes (news ! j) = Some (p_description (newSubSteps adds ! j)) \<and>
         nextSubStepIds (news ! j) = None \<and>
         (\<exists>x. position (news ! j) = Some \<lparr>px = x, py = 50\<rparr>)"
      by simp
    from each have first: "0 < length (newSubSteps adds) \<longrightarrow>
        position (news ! 0) = Some \<lparr>px = 50 + real (length (subSteps st)) * 220, py = 50\<rparr>"
      by auto
    show ?thesis
      by (rule placement_from_shape [OF fr len each' first])
  qed
  have p6: "length (snd (handleConfirmProposals_part0 gen g ns adds)) = length ns + length (newSubSteps adds) \<and>
     (\<forall>j < length (newSubSteps adds).
        stext (snd (handleConfirmProposals_part0 gen g ns adds) ! (length ns + j)) = p_title (newSubSteps adds ! j) \<and>
        snotes (snd (handleConfirmProposals_part0 gen g ns adds) ! (length ns + j)) = Some (p_description (newSubSteps adds ! j)) \<and>
        nextSubStepIds (snd (handleConfirmProposals_part0 gen g ns adds) ! (length ns + j)) = None \<and>
        (\<exists>x. position (snd (handleConfirmProposals_part0 gen g ns adds) ! (length ns + j)) = Some \<lparr>px = x, py = 50\<rparr>)) \<and>
     (0 < length (newSubSteps adds) \<longrightarrow>
        position (snd (handleConfirmProposals_part0 gen g ns adds) ! length ns) = Some \<lparr>px = 50 + real (length ns) * 250, py = 50\<rparr>)"
  proof -
    let ?news = "fst (map_gen (proposalSubStep gen (length ns)) (newSubSteps adds) g)"
    have fr: "map (\<lambda>n. n\<lparr>actionItems := None\<rparr>) (snd (handleConfirmProposals_part0 gen g ns adds)) =
              map (\<lambda>n. n\<lparr>actionItems := None\<rparr>) (ns @ ?news)"
      unfolding part0_subSteps by (rule map_gen_attach_frame)
    note M = map_gen_proposalSubStep [of gen "length ns" "newSubSteps adds" g]
    from M have len: "length ?news = length (newSubSteps adds)"
      by (rule conjunct1)
    from M have each': "\<forall>j < length (newSubSteps adds).
         stext (?news ! j) = p_title (newSubSteps adds ! j) \<and>
         snotes (?news ! j) = Some (p_description (newSubSteps adds ! j)) \<and>
         nextSubStepIds (?news ! j) = None \<and>
         (\<exists>x. position (?news ! j) = Some \<lparr>px = x, py = 50\<rparr>)"
      by simp
    from M have first: "0 < length (newSubSteps adds) \<longrightarrow>
        position (?news ! 0) = Some \<lparr>px = 50 + real (length ns) * 250, py = 50\<rparr>"
      by simp
    show ?thesis
      by (rule placement_from_shape [OF fr len each' first])
  qed
  show ?thesis
    apply (rule conjI, rule p1)
    apply (rule conjI, rule p2)
    apply (rule conjI, rule p3)
    apply (rule conjI, rule p4)
    apply (rule conjI, rule p5)
    apply (rule p6)
    done
qed


text \<open>
  C8, witness: the empty mounted canvas and the single proposal (T, D).
\<close>

theorem mergeProposals_appends_witness:
  "subSteps (exampleState []) = [] \<and>
   subSteps (snd (handleConfirmProposals exampleIdGen 0 (exampleState [])
        \<lparr>newSubSteps = [\<lparr>p_title = ''T'', p_description = ''D''\<rparr>], newActionItems = []\<rparr>)) =
     [\<lparr>sid = ''substep-'', stext = ''T'', snotes = Some ''D'',
       position = Some \<lparr>px = 50, py = 50\<rparr>,
       nextSubStepIds = None, actionItems = Some [], status = None\<rparr>] \<and>
   0 < length (newSubSteps \<lparr>newSubSteps = [\<lparr>p_title = ''T'', p_description = ''D''\<rparr>], newActionItems = []\<rparr>) \<and>
   position (subSteps (snd (handleConfirmProposals exampleIdGen 0 (exampleState [])
        \<lparr>newSubSteps = [\<lparr>p_title = ''T'', p_description = ''D''\<rparr>], newActionItems = []\<rparr>)) ! length (subSteps (exampleState []))) = Some \<lparr>px = 50, py = 50\<rparr>"
proof -
  note T = mergeProposals_appends [where gen = exampleIdGen and g = 0
      and st = "exampleState []" and adds = "\<lparr>newSubSteps = [\<lparr>p_title = ''T'', p_description = ''D''\<rparr>], newActionItems = []\<rparr>"]
  have h: "subSteps (exampleState []) = []"
    by (simp add: exampleState_def)
  from T have "subSteps (exampleState []) = [] \<longrightarrow>
      subSteps (snd (handleConfirmProposals exampleIdGen 0 (exampleState [])
        \<lparr>newSubSteps = [\<lparr>p_title = ''T'', p_description = ''D''\<rparr>], newActionItems = []\<rparr>)) =
       [\<lparr>sid = fst (exampleIdGen 0 ''substep''), stext = ''T'', snotes = Some ''D'',
         position = Some \<lparr>px = 50, py = 50\<rparr>,
         nextSubStepIds = None, actionItems = Some [], status = None\<rparr>]"
    by (rule conjunct1)
  with h have r: "subSteps (snd (handleConfirmProposals exampleIdGen 0 (exampleState [])
        \<lparr>newSubSteps = [\<lparr>p_title = ''T'', p_description = ''D''\<rparr>], newActionItems = []\<rparr>)) =
       [\<lparr>sid = fst (exampleIdGen 0 ''substep''), stext = ''T'', snotes = Some ''D'',
         position = Some \<lparr>px = 50, py = 50\<rparr>,
         nextSubStepIds = None, actionItems = Some [], status = None\<rparr>]"
    by (rule rev_mp)
  show ?thesis
    unfolding r by (simp add: h exampleIdGen_def)
qed

lemma mergeProposals_four_positions:
  "map position (subSteps (snd (handleConfirmProposals exampleIdGen 0 (exampleState [])
        \<lparr>newSubSteps = [\<lparr>p_title = ''P1'', p_description = ''D1''\<rparr>,
                         \<lparr>p_title = ''P2'', p_description = ''D2''\<rparr>,
                         \<lparr>p_title = ''P3'', p_description = ''D3''\<rparr>,
                         \<lparr>p_title = ''P4'', p_description = ''D4''\<rparr>],
          newActionItems = []\<rparr>))) =
     [Some \<lparr>px = 50, py = 50\<rparr>, Some \<lparr>px = 490, py = 50\<rparr>,
      Some \<lparr>px = 930, py = 50\<rparr>, Some \<lparr>px = 1370, py = 50\<rparr>]"
  by (simp add: handleConfirmProposals_def pushProposal_def exampleState_def exampleIdGen_def
        Let_def)

text \<open>
  C8, counterexample to the claim as stated: four proposals merged into the empty node set
  land at (50, 50), (490, 50), (930, 50) and (1370, 50). No margin and spacings make that the
  three-column grid of the layout rule, on which the 1st and the 4th node share their
  \<open>x\<close>.
\<close>

theorem mergeProposals_not_grid_counterexample:
  "map position (subSteps (snd (handleConfirmProposals exampleIdGen 0 (exampleState [])
        \<lparr>newSubSteps = [\<lparr>p_title = ''P1'', p_description = ''D1''\<rparr>,
                         \<lparr>p_title = ''P2'', p_description = ''D2''\<rparr>,
                         \<lparr>p_title = ''P3'', p_description = ''D3''\<rparr>,
                         \<lparr>p_title = ''P4'', p_description = ''D4''\<rparr>],
          newActionItems = []\<rparr>))) =
     [Some \<lparr>px = 50, py = 50\<rparr>, Some \<lparr>px = 490, py = 50\<rparr>,
      Some \<lparr>px = 930, py = 50\<rparr>, Some \<lparr>px = 1370, py = 50\<rparr>] \<and>
   \<not> (\<exists>margin hSpacing vSpacing. \<forall>i < 4.
        map position (subSteps (snd (handleConfirmProposals exampleIdGen 0 (exampleState [])
        \<lparr>newSubSteps = [\<lparr>p_title = ''P1'', p_description = ''D1''\<rparr>,
                         \<lparr>p_title = ''P2'', p_description = ''D2''\<rparr>,
                         \<lparr>p_title = ''P3'', p_description = ''D3''\<rparr>,
                         \<lparr>p_title = ''P4'', p_description = ''D4''\<rparr>],
          newActionItems = []\<rparr>))) ! i =
          Some \<lparr>px = margin + real (i mod 3) * hSpacing,
                py = margin + real_of_int \<lfloor>real i / 3\<rfloor> * vSpacing\<rparr>)"
proof (rule conjI)
  show "map position (subSteps (snd (handleConfirmProposals exampleIdGen 0 (exampleState [])
        \<lparr>newSubSteps = [\<lparr>p_title = ''P1'', p_description = ''D1''\<rparr>,
                         \<lparr>p_title = ''P2'', p_description = ''D2''\<rparr>,
                         \<lparr>p_title = ''P3'', p_description = ''D3''\<rparr>,
                         \<lparr>p_title = ''P4'', p_description = ''D4''\<rparr>],
          newActionItems = []\<rparr>))) =
     [Some \<lparr>px = 50, py = 50\<rparr>, Some \<lparr>px = 490, py = 50\<rparr>,
      Some \<lparr>px = 930, py = 50\<rparr>, Some \<lparr>px = 1370, py = 50\<rparr>]"
    by (rule mergeProposals_four_positions)
  show "\<not> (\<exists>margin hSpacing vSpacing. \<forall>i < 4.
        map position (subSteps (snd (handleConfirmProposals exampleIdGen 0 (exampleState [])
        \<lparr>newSubSteps = [\<lparr>p_title = ''P1'', p_description = ''D1''\<rparr>,
                         \<lparr>p_title = ''P2'', p_description = ''D2''\<rparr>,
                         \<lparr>p_title = ''P3'', p_description = ''D3''\<rparr>,
                         \<lparr>p_title = ''P4'', p_description = ''D4''\<rparr>],
          newActionItems = []\<rparr>))) ! i =
          Some \<lparr>px = margin + real (i mod 3) * hSpacing,
                py = margin + real_of_int \<lfloor>real i / 3\<rfloor> * vSpacing\<rparr>)"
    unfolding mergeProposals_four_positions
  proof (intro notI, elim exE)
    fix margin hSpacing vSpacing :: real
    assume a: "\<forall>i < 4.
        [Some \<lparr>px = 50, py = 50\<rparr>, Some \<lparr>px = 490, py = 50\<rparr>,
         Some \<lparr>px = 930, py = 50\<rparr>, Some \<lparr>px = 1370, py = 50\<rparr>] ! i =
          Some \<lparr>px = margin + real (i mod 3) * hSpacing,
                py = margin + real_of_int \<lfloor>real i / 3\<rfloor> * vSpacing\<rparr>"
    from a [THEN spec, of 0] have m0: "margin = 50" by simp
    from a [THEN spec, of 3] have m3: "margin = 1370" by simp
    from m0 m3 show False by simp
  qed
qed

end
